theory Spec2Isabelle
  imports Complex_Main "HOL-Library.AList"
begin

section \<open>State names\<close>

text \<open>
  The state names of the source are Cyrillic Python strings. A HOL \<open>string\<close> is a list of
  8-bit characters, so every name is written as the bytes of its UTF-8 encoding; the encoding
  is injective, hence two names are equal here exactly when the Python strings are equal.
  The constants carry a Latin transliteration of the name they stand for.
\<close>

definition Pustota :: string where
  "Pustota = [CHR 0xD0, CHR 0x9F, CHR 0xD1, CHR 0x83, CHR 0xD1, CHR 0x81, CHR 0xD1,
     CHR 0x82, CHR 0xD0, CHR 0xBE, CHR 0xD1, CHR 0x82, CHR 0xD0, CHR 0xB0]"

definition Trevoga :: string where
  "Trevoga = [CHR 0xD0, CHR 0xA2, CHR 0xD1, CHR 0x80, CHR 0xD0, CHR 0xB5, CHR 0xD0,
     CHR 0xB2, CHR 0xD0, CHR 0xBE, CHR 0xD0, CHR 0xB3, CHR 0xD0, CHR 0xB0]"

definition Gnev :: string where
  "Gnev = [CHR 0xD0, CHR 0x93, CHR 0xD0, CHR 0xBD, CHR 0xD0, CHR 0xB5, CHR 0xD0, CHR 0xB2]"

definition Obektivizatsiya :: string where
  "Obektivizatsiya = [CHR 0xD0, CHR 0x9E, CHR 0xD0, CHR 0xB1, CHR 0xD1, CHR 0x8A, CHR 0xD0,
     CHR 0xB5, CHR 0xD0, CHR 0xBA, CHR 0xD1, CHR 0x82, CHR 0xD0, CHR 0xB8, CHR 0xD0,
     CHR 0xB2, CHR 0xD0, CHR 0xB8, CHR 0xD0, CHR 0xB7, CHR 0xD0, CHR 0xB0, CHR 0xD1,
     CHR 0x86, CHR 0xD0, CHR 0xB8, CHR 0xD1, CHR 0x8F]"

definition Somnenie :: string where
  "Somnenie = [CHR 0xD0, CHR 0xA1, CHR 0xD0, CHR 0xBE, CHR 0xD0, CHR 0xBC, CHR 0xD0,
     CHR 0xBD, CHR 0xD0, CHR 0xB5, CHR 0xD0, CHR 0xBD, CHR 0xD0, CHR 0xB8, CHR 0xD0,
     CHR 0xB5]"

definition Utochnenie :: string where
  "Utochnenie = [CHR 0xD0, CHR 0xA3, CHR 0xD1, CHR 0x82, CHR 0xD0, CHR 0xBE, CHR 0xD1,
     CHR 0x87, CHR 0xD0, CHR 0xBD, CHR 0xD0, CHR 0xB5, CHR 0xD0, CHR 0xBD, CHR 0xD0,
     CHR 0xB8, CHR 0xD0, CHR 0xB5]"

definition Vyvod :: string where
  "Vyvod = [CHR 0xD0, CHR 0x92, CHR 0xD1, CHR 0x8B, CHR 0xD0, CHR 0xB2, CHR 0xD0, CHR 0xBE,
     CHR 0xD0, CHR 0xB4]"

definition Priznanie :: string where
  "Priznanie = [CHR 0xD0, CHR 0x9F, CHR 0xD1, CHR 0x80, CHR 0xD0, CHR 0xB8, CHR 0xD0,
     CHR 0xB7, CHR 0xD0, CHR 0xBD, CHR 0xD0, CHR 0xB0, CHR 0xD0, CHR 0xBD, CHR 0xD0,
     CHR 0xB8, CHR 0xD0, CHR 0xB5]"

definition O_gryozakh :: string where
  "O_gryozakh = [CHR 0xD0, CHR 0x9E, CHR 0x20, CHR 0xD0, CHR 0xB3, CHR 0xD1, CHR 0x80,
     CHR 0xD1, CHR 0x91, CHR 0xD0, CHR 0xB7, CHR 0xD0, CHR 0xB0, CHR 0xD1, CHR 0x85]"

definition Sozhalenie :: string where
  "Sozhalenie = [CHR 0xD0, CHR 0xA1, CHR 0xD0, CHR 0xBE, CHR 0xD0, CHR 0xB6, CHR 0xD0,
     CHR 0xB0, CHR 0xD0, CHR 0xBB, CHR 0xD0, CHR 0xB5, CHR 0xD0, CHR 0xBD, CHR 0xD0,
     CHR 0xB8, CHR 0xD0, CHR 0xB5]"

definition sostoyaniya :: string where
  "sostoyaniya = [CHR 0xD1, CHR 0x81, CHR 0xD0, CHR 0xBE, CHR 0xD1, CHR 0x81, CHR 0xD1,
     CHR 0x82, CHR 0xD0, CHR 0xBE, CHR 0xD1, CHR 0x8F, CHR 0xD0, CHR 0xBD, CHR 0xD0,
     CHR 0xB8, CHR 0xD1, CHR 0x8F]"

definition tekhnologii :: string where
  "tekhnologii = [CHR 0xD1, CHR 0x82, CHR 0xD0, CHR 0xB5, CHR 0xD1, CHR 0x85, CHR 0xD0,
     CHR 0xBD, CHR 0xD0, CHR 0xBE, CHR 0xD0, CHR 0xBB, CHR 0xD0, CHR 0xBE, CHR 0xD0,
     CHR 0xB3, CHR 0xD0, CHR 0xB8, CHR 0xD0, CHR 0xB8]"

section \<open>Data model\<close>

text \<open>
  A Python \<open>dict\<close> keeps its keys distinct and in insertion order. It is modelled as an
  association list: \<open>map_of d k\<close> is the lookup (\<open>None\<close> when \<open>k not in d\<close>),
  \<open>AList.update k v d\<close> is \<open>d[k] = v\<close> (the value is replaced in place when the key is
  present, the pair is appended otherwise) and \<open>AList.delete k d\<close> is \<open>del d[k]\<close>.
  Python floats are modelled as real numbers. The arithmetic of the store operations is
  exact; the pressure is computed with the rounding of double precision, which is defined
  below.
\<close>

type_synonym 'v pydict = "(string \<times> 'v) list"

datatype py_error = KeyError | RecursionError

text \<open>\<open>d.get(k, default)\<close>.\<close>

definition py_get :: "'v pydict \<Rightarrow> string \<Rightarrow> 'v \<Rightarrow> 'v" where
  "py_get d k dflt = (case map_of d k of None \<Rightarrow> dflt | Some v \<Rightarrow> v)"

text \<open>
  One entry of the state tree: the JSON object with the keys \<open>nazvanie\<close> (name),
  \<open>usloviya\<close> (conditions, the names of the parent states) and \<open>ves\<close> (weight). The source
  reads the last two with \<open>.get\<close>, so they may be absent.
\<close>

record state_node =
  nazvanie :: string
  usloviya :: "string list option"
  ves :: "real option"

text \<open>\<open>node.get("usloviya", [])\<close>.\<close>

definition conditions_of :: "state_node \<Rightarrow> string list" where
  "conditions_of node = (case usloviya node of None \<Rightarrow> [] | Some cs \<Rightarrow> cs)"

text \<open>
  \<open>{node["nazvanie"]: node for node in states_tree}\<close>: \<open>nodes_map\<close> of versions 1 and 2,
  \<open>states_dict\<close> of version 3. A later node of the same name replaces the earlier one.
\<close>

definition states_dict :: "state_node list \<Rightarrow> state_node pydict" where
  "states_dict tree = fold (\<lambda>node d. AList.update (nazvanie node) node d) tree []"

text \<open>
  A store is bounded when every activation it holds lies in the closed interval from 0 to 1.
\<close>

definition bounded_store :: "real pydict \<Rightarrow> bool" where
  "bounded_store d = (\<forall>(k, v) \<in> set d. 0 \<le> v \<and> v \<le> 1)"

section \<open>Loading the state tree\<close>

text \<open>
  \<open>mind_data\<close> is the parsed JSON document: a dict from top-level keys to lists of state
  entries. Version 2 reads \<open>mind_data.get("sostoyaniya", mind_data.get("tekhnologii", []))\<close>,
  version 3 reads \<open>mind_data["sostoyaniya"]\<close>, which raises \<open>KeyError\<close> on an absent key.
\<close>

definition load_states_tree_v2 :: "state_node list pydict \<Rightarrow> py_error + state_node list" where
  "load_states_tree_v2 mind_data =
     Inr (py_get mind_data sostoyaniya (py_get mind_data tekhnologii []))"

definition load_states_tree_v3 :: "state_node list pydict \<Rightarrow> py_error + state_node list" where
  "load_states_tree_v3 mind_data =
     (case map_of mind_data sostoyaniya of None \<Rightarrow> Inl KeyError | Some tree \<Rightarrow> Inr tree)"

section \<open>Version 2: activation store, propagation, pressure, memory\<close>

subsection \<open>Propagation\<close>

text \<open>\<open>find_children\<close>: the names of all entries that list \<open>parent_name\<close> as a condition.\<close>

definition find_children :: "state_node list \<Rightarrow> string \<Rightarrow> string list" where
  "find_children tree parent_name =
     map nazvanie (filter (\<lambda>node. parent_name \<in> set (conditions_of node)) tree)"

text \<open>The body of the loop over the children of one active state.\<close>

definition add_influence :: "real \<Rightarrow> string \<Rightarrow> real pydict \<Rightarrow> real pydict" where
  "add_influence influence child new_activations =
     (case map_of new_activations child of
        Some v \<Rightarrow> AList.update child (min 1 (v + influence)) new_activations
      | None \<Rightarrow> AList.update child influence new_activations)"

text \<open>The body of the loop over \<open>list(active_nodes.items())\<close>.\<close>

definition spread :: "state_node list \<Rightarrow> string \<times> real \<Rightarrow> real pydict \<Rightarrow> real pydict" where
  "spread tree item new_activations =
     (case item of (state_name, activation) \<Rightarrow>
        if activation < 0.1 then new_activations
        else fold (add_influence (activation * 0.5)) (find_children tree state_name)
               new_activations)"

text \<open>The dict \<open>new_activations\<close> at the end of the first loop of one iteration.\<close>

definition new_activations :: "state_node list \<Rightarrow> real pydict \<Rightarrow> real pydict" where
  "new_activations tree active = fold (spread tree) active []"

text \<open>The body of the second loop, which writes the accumulated influences to the store.\<close>

definition apply_activation :: "string \<times> real \<Rightarrow> real pydict \<Rightarrow> real pydict" where
  "apply_activation item active =
     (case item of (state, v) \<Rightarrow>
        (case map_of active state of
           Some cur \<Rightarrow> AList.update state (min 1 (cur + v)) active
         | None \<Rightarrow> if v > 0.2 then AList.update state v active else active))"

definition propagate_iteration :: "state_node list \<Rightarrow> real pydict \<Rightarrow> real pydict" where
  "propagate_iteration tree active = fold apply_activation (new_activations tree active) active"

text \<open>\<open>propagate_activation\<close>: \<open>for iteration in range(iterations)\<close>.\<close>

primrec propagate_activation :: "state_node list \<Rightarrow> nat \<Rightarrow> real pydict \<Rightarrow> real pydict" where
  "propagate_activation tree 0 active = active"
| "propagate_activation tree (Suc n) active =
     propagate_activation tree n (propagate_iteration tree active)"

text \<open>The tree of \<open>experiments/test_state_propagation.py\<close>.\<close>

definition test_tree :: "state_node list" where
  "test_tree =
     [\<lparr>nazvanie = Pustota, usloviya = Some [], ves = Some 0\<rparr>,
      \<lparr>nazvanie = Trevoga, usloviya = Some [Pustota], ves = Some 0\<rparr>,
      \<lparr>nazvanie = Gnev, usloviya = Some [Trevoga], ves = Some 0\<rparr>,
      \<lparr>nazvanie = Obektivizatsiya, usloviya = Some [Gnev], ves = Some 0\<rparr>,
      \<lparr>nazvanie = Somnenie, usloviya = Some [Trevoga], ves = Some 0\<rparr>]"

subsection \<open>Double-precision arithmetic\<close>

text \<open>
  A Python float is an IEEE 754 binary64 number, and every arithmetic operation returns the
  exact result rounded to the nearest such number, ties to the even mantissa. A finite
  double is \<open>m * 2 ^ e\<close> with an integer mantissa \<open>m\<close> below \<open>2 ^ 53\<close> and an exponent
  \<open>e\<close> from -1074 to 971. \<open>scale_up\<close> and \<open>scale_down\<close> bring a non-negative real to
  the exponent at which its mantissa has 53 bits (or to the smallest exponent, for the
  subnormal numbers); \<open>round_double\<close> then rounds the mantissa. Overflow to infinity is
  not modelled: the numbers of this program stay far below it.
\<close>

definition round_half_even :: "real \<Rightarrow> int" where
  "round_half_even x =
     (let f = \<lfloor>x\<rfloor>; d = x - of_int f
      in if d < 1 / 2 then f else if 1 / 2 < d then f + 1 else if even f then f else f + 1)"

function scale_up :: "real \<Rightarrow> int \<Rightarrow> real \<times> int" where
  "scale_up x e = (if x < 2 ^ 52 \<and> - 1074 < e then scale_up (2 * x) (e - 1) else (x, e))"
  by pat_completeness auto
termination
  by (relation "measure (\<lambda>(x, e). nat (e + 1074))") auto

function scale_down :: "real \<Rightarrow> int \<Rightarrow> real \<times> int" where
  "scale_down x e = (if 2 ^ 53 \<le> x \<and> e < 971 then scale_down (x / 2) (e + 1) else (x, e))"
  by pat_completeness auto
termination
  by (relation "measure (\<lambda>(x, e). nat (971 - e))") auto

definition pow2 :: "int \<Rightarrow> real" where
  "pow2 e = (if 0 \<le> e then 2 ^ nat e else 1 / 2 ^ nat (- e))"

definition round_double :: "real \<Rightarrow> real" where
  "round_double x =
     (if x = 0 then 0
      else case scale_up \<bar>x\<bar> 0 of (x1, e1) \<Rightarrow>
             (case scale_down x1 e1 of (m, e) \<Rightarrow>
                sgn x * of_int (round_half_even m) * pow2 e))"

subsection \<open>Pressure\<close>

text \<open>
  The table \<open>urgency_weights\<close> and the list \<open>trigger_nodes\<close>. The argument \<open>lit\<close> is the
  reading of a decimal literal of the source: \<open>round_double\<close> for Python, the identity for
  exact arithmetic.
\<close>

definition urgency_weights :: "(real \<Rightarrow> real) \<Rightarrow> real pydict" where
  "urgency_weights lit =
     [(Gnev, lit 0.9), (Utochnenie, lit 0.7), (Vyvod, lit 0.8), (Priznanie, lit 0.7),
      (Somnenie, lit 0.3), (O_gryozakh, lit 0.1), (Trevoga, lit 0.6), (Sozhalenie, lit 0.4)]"

definition trigger_nodes :: "string list" where
  "trigger_nodes = [Utochnenie, Vyvod, Priznanie, Gnev, Somnenie]"

text \<open>
  \<open>calculate_pressure\<close> of version 2: \<open>pressure\<close> starts at 0.0, the loop over the items of
  the store executes \<open>pressure += activation * weight\<close> with
  \<open>weight = urgency_weights.get(state, 0.5)\<close>, and the result is \<open>min(pressure, 1.0)\<close>.
  The argument \<open>rnd\<close> is the rounding applied to every literal, product and sum;
  \<open>calculate_pressure\<close> is the function with the rounding of Python.
\<close>

definition add_pressure :: "(real \<Rightarrow> real) \<Rightarrow> string \<times> real \<Rightarrow> real \<Rightarrow> real" where
  "add_pressure rnd item pressure =
     (case item of (state, activation) \<Rightarrow>
        rnd (pressure + rnd (activation * py_get (urgency_weights rnd) state (rnd 0.5))))"

definition calculate_pressure_in :: "(real \<Rightarrow> real) \<Rightarrow> real pydict \<Rightarrow> real" where
  "calculate_pressure_in rnd active = min (fold (add_pressure rnd) active (rnd 0)) (rnd 1)"

definition calculate_pressure :: "real pydict \<Rightarrow> real" where
  "calculate_pressure active = calculate_pressure_in round_double active"

text \<open>
  \<open>calculate_pressure\<close> of version 1 reads the store with a default:
  \<open>pressure += active_nodes.get(node, 0.0)\<close> for every trigger node.
\<close>

definition calculate_pressure_v1 :: "real pydict \<Rightarrow> real" where
  "calculate_pressure_v1 active =
     min (fold (\<lambda>node pressure. pressure + py_get active node 0) trigger_nodes 0) 1"

subsection \<open>Updating the store\<close>

text \<open>First loop of \<open>update_activation\<close>: states unknown to \<open>nodes_map\<close> are skipped.\<close>

definition activate_state :: "state_node pydict \<Rightarrow> string \<Rightarrow> real pydict \<Rightarrow> real pydict" where
  "activate_state nodes_map state active =
     (if map_of nodes_map state \<noteq> None then
        (case map_of active state of
           Some v \<Rightarrow> AList.update state (min 1 (v + 0.4)) active
         | None \<Rightarrow> AList.update state 0.7 active)
      else active)"

text \<open>Second loop: only states already in the store are increased.\<close>

definition increase_state :: "string \<Rightarrow> real pydict \<Rightarrow> real pydict" where
  "increase_state state active =
     (case map_of active state of
        Some v \<Rightarrow> AList.update state (min 1 (v + 0.2)) active
      | None \<Rightarrow> active)"

text \<open>
  Third loop, over \<open>list(active_nodes.keys())\<close>: the entry is multiplied by the factor and
  deleted when it has fallen below 0.1. The keys are those of the dict itself, so the lookup
  always succeeds in the source; the \<open>None\<close> branch leaves the store as it is.
\<close>

definition fade_state :: "real \<Rightarrow> string \<Rightarrow> real pydict \<Rightarrow> real pydict" where
  "fade_state factor state active =
     (case map_of active state of
        None \<Rightarrow> active
      | Some v \<Rightarrow>
          if v * factor < 0.1 then AList.delete state (AList.update state (v * factor) active)
          else AList.update state (v * factor) active)"

definition natural_decay :: "real pydict \<Rightarrow> real pydict" where
  "natural_decay active = fold (fade_state 0.92) (map fst active) active"

definition update_activation ::
  "state_node pydict \<Rightarrow> string list \<Rightarrow> string list \<Rightarrow> real pydict \<Rightarrow> real pydict" where
  "update_activation nodes_map states_to_activate states_to_increase active =
     natural_decay
       (fold increase_state states_to_increase
          (fold (activate_state nodes_map) states_to_activate active))"

text \<open>\<open>reduce_weights_after_response\<close>: trigger states are multiplied by 0.4, the others by 0.7.\<close>

definition reduce_state :: "string \<Rightarrow> real pydict \<Rightarrow> real pydict" where
  "reduce_state state active =
     fade_state (if state \<in> set trigger_nodes then 0.4 else 0.7) state active"

definition reduce_weights_after_response :: "real pydict \<Rightarrow> real pydict" where
  "reduce_weights_after_response active = fold reduce_state (map fst active) active"

subsection \<open>Short-term memory and the turn\<close>

record memory_entry =
  states :: "real pydict"
  entry_empathy_target :: "string list option"
  timestamp :: nat

record mind =
  states_tree :: "state_node list"
  active_nodes :: "real pydict"
  conversation_history :: "(string \<times> string) list"
  short_term_memory :: "memory_entry list"
  empathy_target :: "string list option"

definition init_mind :: "state_node list \<Rightarrow> mind" where
  "init_mind tree =
     \<lparr>states_tree = tree, active_nodes = [], conversation_history = [],
      short_term_memory = [], empathy_target = None\<rparr>"

definition significant_states :: "mind \<Rightarrow> real pydict" where
  "significant_states m = filter (\<lambda>(k, v). v > 0.3) (active_nodes m)"

definition current_entry :: "mind \<Rightarrow> memory_entry" where
  "current_entry m =
     \<lparr>states = significant_states m, entry_empathy_target = empathy_target m,
      timestamp = length (conversation_history m)\<rparr>"

text \<open>\<open>archive_current_state\<close>: \<open>append\<close>, then \<open>pop(0)\<close> when more than 5 entries are held.\<close>

definition archive_current_state :: "mind \<Rightarrow> mind" where
  "archive_current_state m =
     (if significant_states m \<noteq> [] then
        (let memory = short_term_memory m @ [current_entry m]
         in m\<lparr>short_term_memory := (if length memory > 5 then tl memory else memory)\<rparr>)
      else m)"

text \<open>
  One record operation: the store, the empathy target and the history as they are when
  \<open>archive_current_state\<close> is called, followed by the call. \<open>snapshot_entry\<close> is the entry
  the call builds and \<open>recorded\<close> says whether the store has a significant state, so that
  the entry is appended.
\<close>

type_synonym snapshot = "real pydict \<times> string list option \<times> (string \<times> string) list"

definition record_snapshot :: "snapshot \<Rightarrow> mind \<Rightarrow> mind" where
  "record_snapshot snap m =
     (case snap of (active, target, history) \<Rightarrow>
        archive_current_state
          (m\<lparr>active_nodes := active, conversation_history := history,
             empathy_target := target\<rparr>))"

definition snapshot_entry :: "snapshot \<Rightarrow> memory_entry" where
  "snapshot_entry snap =
     (case snap of (active, target, history) \<Rightarrow>
        \<lparr>states = filter (\<lambda>(k, v). v > 0.3) active, entry_empathy_target = target,
         timestamp = length history\<rparr>)"

definition recorded :: "snapshot \<Rightarrow> bool" where
  "recorded snap = (case snap of (active, target, history) \<Rightarrow>
     filter (\<lambda>(k, v). v > 0.3) active \<noteq> [])"

text \<open>The \<open>n\<close> most recent elements of a list that grows at its end.\<close>

definition most_recent :: "nat \<Rightarrow> 'a list \<Rightarrow> 'a list" where
  "most_recent n xs = drop (length xs - n) xs"

text \<open>Snapshots for the examples: a store with a significant state, and one without.\<close>

definition example_snapshot :: "nat \<Rightarrow> snapshot" where
  "example_snapshot n = ([(Gnev, 0.8)], Some [Gnev], replicate n (''user'', ''...''))"

definition faded_snapshot :: snapshot where
  "faded_snapshot = ([(Gnev, 0.2)], None, [])"

text \<open>A state of the mind whose memory is full, for the examples.\<close>

definition example_entry :: "nat \<Rightarrow> memory_entry" where
  "example_entry t =
     \<lparr>states = [(Trevoga, 0.7)], entry_empathy_target = Some [Trevoga], timestamp = t\<rparr>"

definition full_memory_mind :: mind where
  "full_memory_mind =
     \<lparr>states_tree = test_tree, active_nodes = [(Gnev, 0.8), (Somnenie, 0.2)],
      conversation_history = replicate 10 (''user'', ''...''),
      short_term_memory = map example_entry [1, 3, 5, 7, 9], empathy_target = Some [Gnev]\<rparr>"

text \<open>
  The answers of the external language model that one turn consumes: the states of the
  interlocutor, the lists \<open>activate\<close> and \<open>increase_weight\<close>, the decision \<open>respond\<close> with
  its \<open>themes\<close>, and the generated text.
\<close>

record replies =
  user_states :: "string list"
  states_to_activate :: "string list"
  states_to_increase :: "string list"
  should_respond :: bool
  response_themes :: "string list"
  response :: string

text \<open>
  \<open>process_message\<close> of version 2, without logging and without the knowledge store, which
  never touch the fields modelled here.
\<close>

definition process_message :: "string \<times> replies \<Rightarrow> mind \<Rightarrow> mind \<times> string option" where
  "process_message turn m =
     (case turn of (user_input, r) \<Rightarrow>
        let m1 = m\<lparr>empathy_target := Some (user_states r)\<rparr>;
            m2 = m1\<lparr>active_nodes :=
                      update_activation (states_dict (states_tree m1)) (states_to_activate r)
                        (states_to_increase r) (active_nodes m1)\<rparr>;
            m3 = m2\<lparr>active_nodes := propagate_activation (states_tree m2) 3 (active_nodes m2)\<rparr>;
            m4 = m3\<lparr>conversation_history := conversation_history m3 @ [(''user'', user_input)]\<rparr>
        in if should_respond r \<and> response_themes r \<noteq> [] then
             (let m5 = archive_current_state m4;
                  m6 = m5\<lparr>conversation_history :=
                            conversation_history m5 @ [(''bot'', response r)]\<rparr>;
                  m7 = m6\<lparr>active_nodes := reduce_weights_after_response (active_nodes m6)\<rparr>
              in (m7, Some (response r)))
           else (m4, None))"

definition run_turns :: "(string \<times> replies) list \<Rightarrow> mind \<Rightarrow> mind" where
  "run_turns turns m = fold (\<lambda>turn m. fst (process_message turn m)) turns m"

text \<open>A turn in which Trevoga is activated and no answer is given, for the examples.\<close>

definition silent_replies :: replies where
  "silent_replies =
     \<lparr>user_states = [Trevoga], states_to_activate = [Trevoga], states_to_increase = [],
      should_respond = False, response_themes = [], response = []\<rparr>"

text \<open>The operations on the store of version 2, for arbitrary sequences of them.\<close>

datatype store_op =
    UpdateActivation "string list" "string list"
  | PropagateActivation nat
  | ReduceWeightsAfterResponse

fun store_step :: "state_node list \<Rightarrow> store_op \<Rightarrow> real pydict \<Rightarrow> real pydict" where
  "store_step tree (UpdateActivation acts incs) active =
     update_activation (states_dict tree) acts incs active"
| "store_step tree (PropagateActivation n) active = propagate_activation tree n active"
| "store_step tree ReduceWeightsAfterResponse active = reduce_weights_after_response active"

subsection \<open>The order of the steps as the specification words it\<close>

text \<open>
  \<open>decay_all\<close> in the words of the specification: every entry is multiplied by the factor,
  and the entries that fall below 0.1 are removed.
\<close>

definition decay_all :: "real \<Rightarrow> real pydict \<Rightarrow> real pydict" where
  "decay_all factor active =
     filter (\<lambda>(k, v). \<not> v < 0.1) (map (\<lambda>(k, v). (k, v * factor)) active)"

text \<open>The classifier-driven update alone: the first two loops of \<open>update_activation\<close>.\<close>

definition bump_states ::
  "state_node pydict \<Rightarrow> string list \<Rightarrow> string list \<Rightarrow> real pydict \<Rightarrow> real pydict" where
  "bump_states nodes_map acts incs active =
     fold increase_state incs (fold (activate_state nodes_map) acts active)"

text \<open>
  The store after the engine steps of one turn if, as the specification says, the decay ran
  once after both the update and the propagation.
\<close>

definition spec_turn_store ::
  "state_node list \<Rightarrow> string list \<Rightarrow> string list \<Rightarrow> real pydict \<Rightarrow> real pydict" where
  "spec_turn_store tree acts incs active =
     decay_all 0.92 (propagate_activation tree 3 (bump_states (states_dict tree) acts incs active))"

section \<open>Version 3: state weights and parent states\<close>

text \<open>\<open>state_weights\<close> at start-up: \<open>{state["nazvanie"]: state.get("ves", 0.0) ...}\<close>.\<close>

definition initial_weight :: "state_node \<Rightarrow> real" where
  "initial_weight state = (case ves state of None \<Rightarrow> 0 | Some w \<Rightarrow> w)"

definition init_state_weights :: "state_node list \<Rightarrow> real pydict" where
  "init_state_weights tree =
     fold (\<lambda>state d. AList.update (nazvanie state) (initial_weight state) d) tree []"

text \<open>
  A Python \<open>set\<close> of names is modelled as a list without repetitions; \<open>set_add\<close> is
  \<open>s.add(x)\<close> and \<open>set_update\<close> is \<open>s.update(t)\<close>. The order of the list stands for the
  unspecified iteration order of the set.
\<close>

definition set_add :: "string \<Rightarrow> string list \<Rightarrow> string list" where
  "set_add x s = (if x \<in> set s then s else s @ [x])"

definition set_update :: "string list \<Rightarrow> string list \<Rightarrow> string list" where
  "set_update s t = fold set_add t s"

text \<open>
  The loop of \<open>_get_parent_states\<close> over the conditions of a state. \<open>rec\<close> is the recursive
  call; an exception raised by it leaves the loop.
\<close>

fun parents_loop ::
  "state_node pydict \<Rightarrow> (string \<Rightarrow> py_error + string list) \<Rightarrow> string list \<Rightarrow> string list
     \<Rightarrow> py_error + string list" where
  "parents_loop sd rec [] parents = Inr parents"
| "parents_loop sd rec (condition # conditions) parents =
     (if map_of sd condition \<noteq> None then
        (case rec condition of
           Inl e \<Rightarrow> Inl e
         | Inr ps \<Rightarrow> parents_loop sd rec conditions (set_update (set_add condition parents) ps))
      else parents_loop sd rec conditions parents)"

text \<open>
  \<open>_get_parent_states\<close>. The source recurses on every condition with no record of the states
  already visited. The first argument is the number of nested calls the interpreter still
  allows (Python's recursion limit); a call beyond it raises \<open>RecursionError\<close>.
\<close>

primrec get_parent_states ::
  "nat \<Rightarrow> state_node pydict \<Rightarrow> string \<Rightarrow> py_error + string list" where
  "get_parent_states 0 sd state_name = Inl RecursionError"
| "get_parent_states (Suc depth) sd state_name =
     (case map_of sd state_name of
        None \<Rightarrow> Inr []
      | Some node \<Rightarrow> parents_loop sd (get_parent_states depth sd) (conditions_of node) [])"

text \<open>
  The loop of \<open>increase_state_weight\<close> over the parent states; \<open>state_weights[parent]\<close>
  raises \<open>KeyError\<close> for a name that is not in the table.
\<close>

fun raise_parents :: "real \<Rightarrow> string list \<Rightarrow> real pydict \<Rightarrow> real pydict \<times> py_error option" where
  "raise_parents amount [] weights = (weights, None)"
| "raise_parents amount (parent # parents) weights =
     (case map_of weights parent of
        None \<Rightarrow> (weights, Some KeyError)
      | Some w \<Rightarrow> raise_parents amount parents
                    (AList.update parent (min 1 (w + amount * 0.5)) weights))"

text \<open>
  \<open>increase_state_weight\<close>. The result is the table as the call leaves it, together with the
  exception that ended the call, if any: the weight of the state itself is written before
  the parent states are computed.
\<close>

definition increase_state_weight ::
  "nat \<Rightarrow> state_node pydict \<Rightarrow> string \<Rightarrow> real \<Rightarrow> real pydict \<Rightarrow> real pydict \<times> py_error option" where
  "increase_state_weight depth sd state_name amount weights =
     (case map_of weights state_name of
        None \<Rightarrow> (weights, None)
      | Some w \<Rightarrow>
          (let weights1 = AList.update state_name (min 1 (w + amount)) weights
           in case get_parent_states depth sd state_name of
                Inl e \<Rightarrow> (weights1, Some e)
              | Inr parent_states \<Rightarrow> raise_parents amount parent_states weights1))"

definition decrease_state_weight :: "string \<Rightarrow> real \<Rightarrow> real pydict \<Rightarrow> real pydict" where
  "decrease_state_weight state_name amount weights =
     (case map_of weights state_name of
        None \<Rightarrow> weights
      | Some w \<Rightarrow> AList.update state_name (max 0 (w - amount)) weights)"

definition spontaneous_threshold :: real where
  "spontaneous_threshold = 1"

text \<open>\<open>get_triggered_states\<close>, and the test \<open>if triggered:\<close> of \<open>delayed_analysis\<close>.\<close>

definition get_triggered_states :: "real pydict \<Rightarrow> string list" where
  "get_triggered_states weights =
     map fst (filter (\<lambda>(name, weight). weight \<ge> spontaneous_threshold) weights)"

definition spontaneous_fires :: "real pydict \<Rightarrow> bool" where
  "spontaneous_fires weights = (get_triggered_states weights \<noteq> [])"

text \<open>The operations on the weight table, for arbitrary sequences of them.\<close>

datatype weight_op = Increase string real | Decrease string real

fun op_amount :: "weight_op \<Rightarrow> real" where
  "op_amount (Increase s a) = a"
| "op_amount (Decrease s a) = a"

fun weight_step :: "nat \<Rightarrow> state_node pydict \<Rightarrow> weight_op \<Rightarrow> real pydict \<Rightarrow> real pydict" where
  "weight_step depth sd (Increase s a) weights = fst (increase_state_weight depth sd s a weights)"
| "weight_step depth sd (Decrease s a) weights = decrease_state_weight s a weights"

text \<open>
  The condition edges that the traversal follows: from a state of the tree to each of its
  conditions that is itself a state of the tree. The ancestors of a state are the states
  reachable along one or more of these edges.
\<close>

definition condition_edges :: "state_node pydict \<Rightarrow> (string \<times> string) set" where
  "condition_edges sd =
     {(s, c). \<exists>node. map_of sd s = Some node \<and> c \<in> set (conditions_of node)
                \<and> map_of sd c \<noteq> None}"

definition ancestors :: "state_node pydict \<Rightarrow> string \<Rightarrow> string set" where
  "ancestors sd s = {p. (s, p) \<in> (condition_edges sd)\<^sup>+}"

text \<open>A tree whose two states are each a condition of the other.\<close>

definition cyclic_tree :: "state_node list" where
  "cyclic_tree =
     [\<lparr>nazvanie = Trevoga, usloviya = Some [Gnev], ves = None\<rparr>,
      \<lparr>nazvanie = Gnev, usloviya = Some [Trevoga], ves = None\<rparr>]"

text \<open>A rank on the names of the experiment tree that decreases along every condition edge.\<close>

definition test_tree_rank :: "string \<Rightarrow> nat" where
  "test_tree_rank s =
     (if s = Pustota then 0 else if s = Trevoga then 1 else if s = Gnev then 2
      else if s = Somnenie then 2 else 3)"

section \<open>Basic facts\<close>

lemmas state_names =
  Pustota_def Trevoga_def Gnev_def Obektivizatsiya_def Somnenie_def Utochnenie_def
  Vyvod_def Priznanie_def O_gryozakh_def Sozhalenie_def sostoyaniya_def tekhnologii_def

lemma names_neq [simp]:
  "Pustota \<noteq> Trevoga" "Pustota \<noteq> Gnev" "Pustota \<noteq> Obektivizatsiya"
  "Pustota \<noteq> Somnenie" "Pustota \<noteq> Utochnenie" "Pustota \<noteq> Vyvod"
  "Pustota \<noteq> Priznanie" "Pustota \<noteq> O_gryozakh" "Pustota \<noteq> Sozhalenie"
  "Trevoga \<noteq> Pustota" "Trevoga \<noteq> Gnev" "Trevoga \<noteq> Obektivizatsiya"
  "Trevoga \<noteq> Somnenie" "Trevoga \<noteq> Utochnenie" "Trevoga \<noteq> Vyvod"
  "Trevoga \<noteq> Priznanie" "Trevoga \<noteq> O_gryozakh" "Trevoga \<noteq> Sozhalenie"
  "Gnev \<noteq> Pustota" "Gnev \<noteq> Trevoga" "Gnev \<noteq> Obektivizatsiya"
  "Gnev \<noteq> Somnenie" "Gnev \<noteq> Utochnenie" "Gnev \<noteq> Vyvod"
  "Gnev \<noteq> Priznanie" "Gnev \<noteq> O_gryozakh" "Gnev \<noteq> Sozhalenie"
  "Obektivizatsiya \<noteq> Pustota" "Obektivizatsiya \<noteq> Trevoga"
  "Obektivizatsiya \<noteq> Gnev" "Obektivizatsiya \<noteq> Somnenie"
  "Obektivizatsiya \<noteq> Utochnenie" "Obektivizatsiya \<noteq> Vyvod"
  "Obektivizatsiya \<noteq> Priznanie" "Obektivizatsiya \<noteq> O_gryozakh"
  "Obektivizatsiya \<noteq> Sozhalenie"
  "Somnenie \<noteq> Pustota" "Somnenie \<noteq> Trevoga" "Somnenie \<noteq> Gnev"
  "Somnenie \<noteq> Obektivizatsiya" "Somnenie \<noteq> Utochnenie" "Somnenie \<noteq> Vyvod"
  "Somnenie \<noteq> Priznanie" "Somnenie \<noteq> O_gryozakh" "Somnenie \<noteq> Sozhalenie"
  "Utochnenie \<noteq> Pustota" "Utochnenie \<noteq> Trevoga" "Utochnenie \<noteq> Gnev"
  "Utochnenie \<noteq> Obektivizatsiya" "Utochnenie \<noteq> Somnenie"
  "Utochnenie \<noteq> Vyvod" "Utochnenie \<noteq> Priznanie" "Utochnenie \<noteq> O_gryozakh"
  "Utochnenie \<noteq> Sozhalenie"
  "Vyvod \<noteq> Pustota" "Vyvod \<noteq> Trevoga" "Vyvod \<noteq> Gnev"
  "Vyvod \<noteq> Obektivizatsiya" "Vyvod \<noteq> Somnenie" "Vyvod \<noteq> Utochnenie"
  "Vyvod \<noteq> Priznanie" "Vyvod \<noteq> O_gryozakh" "Vyvod \<noteq> Sozhalenie"
  "Priznanie \<noteq> Pustota" "Priznanie \<noteq> Trevoga" "Priznanie \<noteq> Gnev"
  "Priznanie \<noteq> Obektivizatsiya" "Priznanie \<noteq> Somnenie"
  "Priznanie \<noteq> Utochnenie" "Priznanie \<noteq> Vyvod" "Priznanie \<noteq> O_gryozakh"
  "Priznanie \<noteq> Sozhalenie"
  "O_gryozakh \<noteq> Pustota" "O_gryozakh \<noteq> Trevoga" "O_gryozakh \<noteq> Gnev"
  "O_gryozakh \<noteq> Obektivizatsiya" "O_gryozakh \<noteq> Somnenie"
  "O_gryozakh \<noteq> Utochnenie" "O_gryozakh \<noteq> Vyvod" "O_gryozakh \<noteq> Priznanie"
  "O_gryozakh \<noteq> Sozhalenie"
  "Sozhalenie \<noteq> Pustota" "Sozhalenie \<noteq> Trevoga" "Sozhalenie \<noteq> Gnev"
  "Sozhalenie \<noteq> Obektivizatsiya" "Sozhalenie \<noteq> Somnenie"
  "Sozhalenie \<noteq> Utochnenie" "Sozhalenie \<noteq> Vyvod" "Sozhalenie \<noteq> Priznanie"
  "Sozhalenie \<noteq> O_gryozakh"
  by (simp_all add: state_names)

lemma set_update_subset: "set (AList.update k v d) \<subseteq> insert (k, v) (set d)"
  by (induction d) auto

lemma bounded_update:
  "bounded_store d \<Longrightarrow> 0 \<le> v \<Longrightarrow> v \<le> 1 \<Longrightarrow> bounded_store (AList.update k v d)"
  using set_update_subset [of k v d] by (auto simp: bounded_store_def)

lemma bounded_delete: "bounded_store d \<Longrightarrow> bounded_store (AList.delete k d)"
  by (auto simp: bounded_store_def AList.delete_eq)

lemma bounded_lookup: "bounded_store d \<Longrightarrow> map_of d k = Some v \<Longrightarrow> 0 \<le> v \<and> v \<le> 1"
  by (auto simp: bounded_store_def dest: map_of_SomeD)

section \<open>Propagation\<close>

lemmas propagation_defs =
  propagate_iteration_def new_activations_def spread_def find_children_def test_tree_def
  conditions_of_def add_influence_def apply_activation_def

lemma propagate_activation_3:
  "propagate_activation tree 3 active =
     propagate_iteration tree (propagate_iteration tree (propagate_iteration tree active))"
  by (simp add: numeral_3_eq_3)

lemma scenario_iteration_1:
  "propagate_iteration test_tree [(Trevoga, 0.8)] =
     [(Trevoga, 0.8), (Gnev, 0.4), (Somnenie, 0.4)]"
  by (simp add: propagation_defs)

lemma scenario_iteration_2:
  "propagate_iteration test_tree [(Trevoga, 0.8), (Gnev, 0.4), (Somnenie, 0.4)] =
     [(Trevoga, 0.8), (Gnev, 0.8), (Somnenie, 0.8)]"
  by (simp add: propagation_defs)

lemma scenario_iteration_3:
  "propagate_iteration test_tree [(Trevoga, 0.8), (Gnev, 0.8), (Somnenie, 0.8)] =
     [(Trevoga, 0.8), (Gnev, 1), (Somnenie, 1), (Obektivizatsiya, 0.4)]"
  by (simp add: propagation_defs)

lemma scenario_store:
  "propagate_activation test_tree 3 [(Trevoga, 0.8)] =
     [(Trevoga, 0.8), (Gnev, 1), (Somnenie, 1), (Obektivizatsiya, 0.4)]"
  by (simp only: propagate_activation_3 scenario_iteration_1 scenario_iteration_2
      scenario_iteration_3)

text \<open>
  C5: on the tree of the propagation experiment, three iterations from the store that holds
  only Trevoga at 0.8 end with Gnev and Somnenie both at 1 (and Obektivizatsiya at 0.4, created
  in the third iteration from Gnev at 0.8); reading either of the two gives a non-zero value.
  Each iteration reads the store the previous one wrote.
\<close>

theorem propagation_cascade_scenario:
  "propagate_activation test_tree 3 [(Trevoga, 0.8)] =
     [(Trevoga, 0.8), (Gnev, 1), (Somnenie, 1), (Obektivizatsiya, 0.4)]
   \<and> py_get (propagate_activation test_tree 3 [(Trevoga, 0.8)]) Gnev 0 \<noteq> 0
   \<and> py_get (propagate_activation test_tree 3 [(Trevoga, 0.8)]) Somnenie 0 \<noteq> 0"
  unfolding scenario_store by (simp add: py_get_def)

lemma distinct_add_influence:
  "distinct (map fst na) \<Longrightarrow> distinct (map fst (add_influence i c na))"
  by (simp add: add_influence_def distinct_update split: option.splits)

lemma distinct_fold_add_influence:
  "distinct (map fst na) \<Longrightarrow> distinct (map fst (fold (add_influence i) cs na))"
  by (induction cs arbitrary: na) (simp_all add: distinct_add_influence)

lemma distinct_spread: "distinct (map fst na) \<Longrightarrow> distinct (map fst (spread tree item na))"
  by (simp add: spread_def distinct_fold_add_influence split: prod.splits)

lemma distinct_fold_spread:
  "distinct (map fst na) \<Longrightarrow> distinct (map fst (fold (spread tree) items na))"
  by (induction items arbitrary: na) (simp_all add: distinct_spread)

lemma distinct_new_activations: "distinct (map fst (new_activations tree active))"
  by (simp add: new_activations_def distinct_fold_spread)

lemma map_of_apply_activation:
  "map_of (apply_activation (k, v) active) c =
     (if c = k then
        (case map_of active k of
           Some cur \<Rightarrow> Some (min 1 (cur + v))
         | None \<Rightarrow> if v > 0.2 then Some v else None)
      else map_of active c)"
  by (simp add: apply_activation_def update_conv' split: option.splits)

lemma map_of_fold_apply_activation:
  "distinct (map fst na) \<Longrightarrow>
   map_of (fold apply_activation na active) c =
     (case map_of na c of
        None \<Rightarrow> map_of active c
      | Some v \<Rightarrow>
          (case map_of active c of
             Some cur \<Rightarrow> Some (min 1 (cur + v))
           | None \<Rightarrow> if v > 0.2 then Some v else None))"
proof (induction na arbitrary: active)
  case Nil
  then show ?case by simp
next
  case (Cons item na)
  obtain k v where item: "item = (k, v)" by (cases item)
  from Cons.prems item have absent: "map_of na k = None" and dist: "distinct (map fst na)"
    by (auto simp: map_of_eq_None_iff)
  have step: "map_of (fold apply_activation (item # na) active) c =
      (case map_of na c of
         None \<Rightarrow> map_of (apply_activation (k, v) active) c
       | Some w \<Rightarrow>
           (case map_of (apply_activation (k, v) active) c of
              Some cur \<Rightarrow> Some (min 1 (cur + w))
            | None \<Rightarrow> if w > 0.2 then Some w else None))"
    using Cons.IH [OF dist, of "apply_activation (k, v) active"] by (simp add: item)
  show ?case
  proof (cases "c = k")
    case True
    with absent have "map_of na c = None" by simp
    with True show ?thesis
      unfolding step by (simp add: item map_of_apply_activation)
  next
    case False
    then show ?thesis
      unfolding step by (simp add: item map_of_apply_activation split: option.splits)
  qed
qed

text \<open>
  C4: in one propagation iteration, a state that is not in the store is in it afterwards
  exactly when the influence accumulated for it in that iteration is strictly greater than
  0.2; with an accumulated influence of at most 0.2 no entry is created.
\<close>

theorem propagation_creation_threshold:
  assumes "map_of active c = None"
  shows "(map_of (propagate_iteration tree active) c \<noteq> None
           \<longleftrightarrow> (\<exists>v. map_of (new_activations tree active) c = Some v \<and> 0.2 < v))
         \<and> (\<forall>v. map_of (new_activations tree active) c = Some v \<and> v \<le> 0.2
               \<longrightarrow> map_of (propagate_iteration tree active) c = None)"
  using assms
  by (auto simp: propagate_iteration_def
      map_of_fold_apply_activation [OF distinct_new_activations] split: option.splits)

lemma sole_parent_influence:
  "new_activations test_tree [(Trevoga, 0.3)] = [(Gnev, 0.15), (Somnenie, 0.15)]"
  by (simp add: propagation_defs)

text \<open>
  The example of the claim: Trevoga at 0.3 is the only parent of Gnev, the influence is 0.15
  and Gnev is not created.
\<close>

theorem propagation_creation_threshold_witness:
  "map_of [(Trevoga, 0.3::real)] Gnev = None
   \<and> map_of (new_activations test_tree [(Trevoga, 0.3)]) Gnev = Some 0.15
   \<and> map_of (propagate_iteration test_tree [(Trevoga, 0.3)]) Gnev = None"
proof -
  have h: "map_of [(Trevoga, 0.3::real)] Gnev = None"
    by simp
  have v: "map_of (new_activations test_tree [(Trevoga, 0.3)]) Gnev = Some 0.15"
    by (simp add: sole_parent_influence)
  have le: "(0.15::real) \<le> 0.2"
    by simp
  from propagation_creation_threshold [OF h, of test_tree] v le
  have "map_of (propagate_iteration test_tree [(Trevoga, 0.3)]) Gnev = None"
    by blast
  with h v show ?thesis by blast
qed

section \<open>Pressure\<close>

lemmas double_defs = round_double_def round_half_even_def pow2_def Let_def

lemma double_0_8: "round_double 0.8 = 3602879701896397 / 4503599627370496"
  by (simp add: double_defs)

lemma double_0_9: "round_double 0.9 = 8106479329266893 / 9007199254740992"
  by (simp add: double_defs)

lemma double_0_72: "round_double 0.72 = 6485183463413514 / 9007199254740992"
  by (simp add: double_defs)

lemma double_exact: "round_double 0 = 0" "round_double 0.5 = 0.5" "round_double 1 = 1"
  by (simp_all add: double_defs)

lemma double_exact_simps [simp]: "round_double (1 / 2) = 1 / 2" "round_double 1 = 1"
  by (simp_all add: double_defs)

lemma weight_Gnev: "py_get (urgency_weights rnd) Gnev d = rnd 0.9"
  by (simp add: urgency_weights_def py_get_def)

lemma weight_Pustota: "py_get (urgency_weights rnd) Pustota d = d"
  by (simp add: urgency_weights_def py_get_def)

lemmas pressure_defs =
  calculate_pressure_def calculate_pressure_in_def add_pressure_def

lemma pressure_Gnev:
  "calculate_pressure [(Gnev, round_double 0.8)] = 6485183463413515 / 9007199254740992"
  by (simp add: pressure_defs weight_Gnev double_defs)

lemma pressure_Pustota:
  "calculate_pressure [(Pustota, round_double 0.8)] = round_double 0.4"
  by (simp add: pressure_defs weight_Pustota double_defs)

lemma pressure_both:
  "calculate_pressure [(Gnev, round_double 0.8), (Pustota, round_double 0.8)] = 1"
  by (simp add: pressure_defs weight_Gnev weight_Pustota double_defs)

lemma fold_add_pressure_exact:
  "fold (add_pressure (\<lambda>x. x)) active acc =
     acc + (\<Sum>(state, activation) \<leftarrow> active.
              activation * py_get (urgency_weights (\<lambda>x. x)) state 0.5)"
  by (induction active arbitrary: acc) (auto simp: add_pressure_def)

lemma exact_pressure_sum:
  "calculate_pressure_in (\<lambda>x. x) active =
     min 1 (\<Sum>(state, activation) \<leftarrow> active.
              activation * py_get (urgency_weights (\<lambda>x. x)) state 0.5)"
  by (simp add: calculate_pressure_in_def fold_add_pressure_exact min.commute)

text \<open>
  The example of the claim C6 in the arithmetic of the source: the doubles for 0.8 and 0.9
  are not 0.8 and 0.9, and their product rounds to the double next above the double for
  0.72. The pressure of the store that holds Gnev at 0.8 is therefore
  0.7200000000000001 and not 0.72.
\<close>

theorem pressure_rounding_counterexample:
  "calculate_pressure [(Gnev, round_double 0.8)] = 6485183463413515 / 9007199254740992
   \<and> round_double 0.72 = 6485183463413514 / 9007199254740992
   \<and> calculate_pressure [(Gnev, round_double 0.8)] \<noteq> round_double 0.72
   \<and> calculate_pressure [(Gnev, round_double 0.8)] \<noteq> 0.72"
  unfolding pressure_Gnev double_0_72 by simp

text \<open>
  C6, amended: the pressure is the minimum of 1 and the sum accumulated over the entries of
  the store, in their order, of the activation times the urgency weight of the state (read
  from the table with the default 0.5), where every product and every partial sum is
  rounded to the nearest double. In exact arithmetic this is the minimum of 1 and the
  weighted sum, and Gnev alone at 0.8 gives 0.72; in the arithmetic of the source it gives
  0.7200000000000001, which is within one part in \<open>10 ^ 16\<close> of 0.72. Pustota, which is not
  in the table, counts with 0.5, and a sum above 1 is cut to 1.
\<close>

theorem pressure_weighted_sum:
  "calculate_pressure_in (\<lambda>x. x) active =
     min 1 (\<Sum>(state, activation) \<leftarrow> active.
              activation * py_get (urgency_weights (\<lambda>x. x)) state 0.5)
   \<and> calculate_pressure active =
     min (fold (\<lambda>(state, activation) pressure.
                  round_double (pressure + round_double
                    (activation * py_get (urgency_weights round_double) state 0.5)))
            active 0) 1
   \<and> calculate_pressure_in (\<lambda>x. x) [(Gnev, 0.8)] = 0.72
   \<and> calculate_pressure [(Gnev, round_double 0.8)] = 6485183463413515 / 9007199254740992
   \<and> \<bar>calculate_pressure [(Gnev, round_double 0.8)] - 0.72\<bar> < 1 / 10 ^ 16
   \<and> calculate_pressure [(Pustota, round_double 0.8)] = round_double 0.4
   \<and> calculate_pressure [(Gnev, round_double 0.8), (Pustota, round_double 0.8)] = 1"
proof -
  have fold_eq: "fold (add_pressure round_double) active acc =
      fold (\<lambda>(state, activation) pressure.
              round_double (pressure + round_double
                (activation * py_get (urgency_weights round_double) state 0.5)))
        active acc" for acc
    by (induction active arbitrary: acc) (auto simp: add_pressure_def)
  have general: "calculate_pressure active =
      min (fold (\<lambda>(state, activation) pressure.
                  round_double (pressure + round_double
                    (activation * py_get (urgency_weights round_double) state 0.5)))
            active 0) 1"
    by (simp add: calculate_pressure_def calculate_pressure_in_def fold_eq double_exact)
  have exact: "calculate_pressure_in (\<lambda>x. x) [(Gnev, 0.8)] = 0.72"
    unfolding exact_pressure_sum by (simp add: weight_Gnev)
  have near: "\<bar>calculate_pressure [(Gnev, round_double 0.8)] - 0.72\<bar> < 1 / 10 ^ 16"
    unfolding pressure_Gnev by simp
  from exact_pressure_sum [of active] general exact pressure_Gnev near pressure_Pustota
    pressure_both
  show ?thesis by blast
qed

section \<open>Spontaneous firing\<close>

lemma set_get_triggered_states:
  "set (get_triggered_states weights) = {name. \<exists>w. (name, w) \<in> set weights \<and> 1 \<le> w}"
  by (force simp: get_triggered_states_def spontaneous_threshold_def)

text \<open>
  C7: when every weight of the table is strictly below 1, no state is reported as triggered
  and the spontaneous answer does not fire; a state whose weight is 1 is reported and the
  answer fires; it fires exactly when some weight is at least 1.
\<close>

theorem spontaneous_firing_threshold:
  "((\<forall>(name, w) \<in> set weights. w < 1)
      \<longrightarrow> get_triggered_states weights = [] \<and> \<not> spontaneous_fires weights)
   \<and> ((name, 1) \<in> set weights
      \<longrightarrow> name \<in> set (get_triggered_states weights) \<and> spontaneous_fires weights)
   \<and> (spontaneous_fires weights \<longleftrightarrow> (\<exists>(name, w) \<in> set weights. 1 \<le> w))"
proof -
  have nonempty: "spontaneous_fires weights \<longleftrightarrow> set (get_triggered_states weights) \<noteq> {}"
    by (simp add: spontaneous_fires_def)
  have a: "(\<forall>(name, w) \<in> set weights. w < 1) \<longrightarrow> set (get_triggered_states weights) = {}"
    unfolding set_get_triggered_states by fastforce
  have b: "(name, 1) \<in> set weights \<longrightarrow> name \<in> set (get_triggered_states weights)"
    unfolding set_get_triggered_states by auto
  have c: "set (get_triggered_states weights) \<noteq> {} \<longleftrightarrow> (\<exists>(name, w) \<in> set weights. 1 \<le> w)"
    unfolding set_get_triggered_states by auto
  from a b c show ?thesis
    unfolding nonempty by auto
qed

text \<open>The boundary of the claim: 0.999 does not trigger, 1 does.\<close>

theorem spontaneous_firing_threshold_witness:
  "(0.999::real) < 1
   \<and> get_triggered_states [(Gnev, 0.999)] = []
   \<and> \<not> spontaneous_fires [(Gnev, 0.999)]
   \<and> (Gnev, 1) \<in> set [(Trevoga, 0.5), (Gnev, 1::real)]
   \<and> Gnev \<in> set (get_triggered_states [(Trevoga, 0.5), (Gnev, 1)])
   \<and> spontaneous_fires [(Trevoga, 0.5), (Gnev, 1)]"
proof -
  have below: "\<forall>(name, w) \<in> set [(Gnev, 0.999::real)]. w < 1"
    by simp
  have at: "(Gnev, 1) \<in> set [(Trevoga, 0.5), (Gnev, 1::real)]"
    by simp
  from spontaneous_firing_threshold [of "[(Gnev, 0.999)]" Gnev] below
  have "get_triggered_states [(Gnev, 0.999)] = [] \<and> \<not> spontaneous_fires [(Gnev, 0.999)]"
    by blast
  moreover from spontaneous_firing_threshold [of "[(Trevoga, 0.5), (Gnev, 1)]" Gnev] at
  have "Gnev \<in> set (get_triggered_states [(Trevoga, 0.5), (Gnev, 1)])
        \<and> spontaneous_fires [(Trevoga, 0.5), (Gnev, 1)]"
    by blast
  moreover have "(0.999::real) < 1"
    by simp
  ultimately show ?thesis
    using at by blast
qed

section \<open>Short-term memory\<close>

lemma length_archive:
  "length (short_term_memory m) \<le> 5 \<Longrightarrow> length (short_term_memory (archive_current_state m)) \<le> 5"
  by (simp add: archive_current_state_def Let_def)

lemma memory_reduce [simp]: "short_term_memory (m\<lparr>active_nodes := a\<rparr>) = short_term_memory m"
  by simp

lemma length_process_message:
  "length (short_term_memory m) \<le> 5 \<Longrightarrow>
   length (short_term_memory (fst (process_message turn m))) \<le> 5"
  by (cases turn) (simp add: process_message_def Let_def length_archive)

lemma length_run_turns:
  "length (short_term_memory m) \<le> 5 \<Longrightarrow> length (short_term_memory (run_turns turns m)) \<le> 5"
  unfolding run_turns_def
  by (induction turns arbitrary: m) (simp_all add: length_process_message)

lemma archive_below_bound:
  "significant_states m \<noteq> [] \<Longrightarrow> length (short_term_memory m) < 5 \<Longrightarrow>
   short_term_memory (archive_current_state m) = short_term_memory m @ [current_entry m]"
  by (simp add: archive_current_state_def Let_def)

lemma archive_nothing: "significant_states m = [] \<Longrightarrow> archive_current_state m = m"
  by (simp add: archive_current_state_def)

lemma most_recent_append:
  "most_recent 5 (most_recent 5 xs @ ys) = most_recent 5 (xs @ ys)"
  by (cases "length xs \<le> 5") (auto simp: most_recent_def add.commute)

lemma most_recent_short: "length xs \<le> 5 \<Longrightarrow> most_recent 5 xs = xs"
  by (simp add: most_recent_def)

lemma length_most_recent: "length (most_recent 5 xs) \<le> 5"
  by (simp add: most_recent_def)

lemma pop_most_recent:
  assumes "length memory \<le> 5"
  shows "(if length (memory @ [e]) > 5 then tl (memory @ [e]) else memory @ [e]) =
           most_recent 5 (memory @ [e])"
proof (cases "length memory = 5")
  case True
  then obtain x xs where "memory = x # xs" "length xs = 4"
    by (cases memory) auto
  then show ?thesis by (simp add: most_recent_def)
next
  case False
  with assms have "length memory < 5" by simp
  then show ?thesis by (simp add: most_recent_def)
qed

lemma memory_record_snapshot:
  assumes "length (short_term_memory m) \<le> 5"
  shows "short_term_memory (record_snapshot snap m) =
     (if recorded snap then most_recent 5 (short_term_memory m @ [snapshot_entry snap])
      else short_term_memory m)"
proof -
  obtain active target history where snap: "snap = (active, target, history)"
    by (cases snap)
  let ?m = "m\<lparr>active_nodes := active, conversation_history := history,
    empathy_target := target\<rparr>"
  have call: "record_snapshot snap m = archive_current_state ?m"
    by (simp add: snap record_snapshot_def)
  have entry: "current_entry ?m = snapshot_entry snap"
    by (simp add: snap current_entry_def snapshot_entry_def significant_states_def)
  have sig: "significant_states ?m \<noteq> [] \<longleftrightarrow> recorded snap"
    by (simp add: snap recorded_def significant_states_def)
  have mem: "short_term_memory ?m = short_term_memory m"
    by simp
  show ?thesis
  proof (cases "recorded snap")
    case True
    with sig have "short_term_memory (archive_current_state ?m) =
        (if length (short_term_memory m @ [snapshot_entry snap]) > 5
         then tl (short_term_memory m @ [snapshot_entry snap])
         else short_term_memory m @ [snapshot_entry snap])"
      unfolding archive_current_state_def Let_def entry mem by simp
    with True show ?thesis
      unfolding call pop_most_recent [OF assms] by simp
  next
    case False
    with sig have "archive_current_state ?m = ?m"
      by (simp add: archive_current_state_def)
    with False show ?thesis
      unfolding call by simp
  qed
qed

lemma memory_fold_record_snapshot:
  "length (short_term_memory m) \<le> 5 \<Longrightarrow>
   short_term_memory (fold record_snapshot snaps m) =
     most_recent 5 (short_term_memory m @ map snapshot_entry (filter recorded snaps))"
proof (induction snaps arbitrary: m)
  case Nil
  then show ?case by (simp add: most_recent_short)
next
  case (Cons snap snaps)
  have len: "length (short_term_memory (record_snapshot snap m)) \<le> 5"
    using memory_record_snapshot [OF Cons.prems, of snap] Cons.prems
    by (simp add: length_most_recent)
  show ?case
  proof (cases "recorded snap")
    case True
    with Cons.IH [OF len] memory_record_snapshot [OF Cons.prems, of snap]
    show ?thesis
      using most_recent_append
        [of "short_term_memory m @ [snapshot_entry snap]"
          "map snapshot_entry (filter recorded snaps)"]
      by simp
  next
    case False
    with Cons.IH [OF len] memory_record_snapshot [OF Cons.prems, of snap]
    show ?thesis by simp
  qed
qed

lemma recorded_examples: "recorded (example_snapshot n)" "\<not> recorded faded_snapshot"
  by (simp_all add: recorded_def example_snapshot_def faded_snapshot_def)

text \<open>
  C8: after any sequence of processed messages from the initial state the memory holds at
  most 5 entries, and archiving keeps the bound. Archiving a state with a significant
  activation appends the new entry at the end when fewer than 5 entries are held, and drops
  the entry at index 0 and appends the new one when 5 are held; a state with no significant
  activation leaves the memory as it is. Hence after any sequence of record operations from
  the empty memory, the memory is the list of the 5 most recent recorded entries, in the
  order in which they were recorded: the entries leave the memory oldest first.
\<close>

theorem memory_bounded_fifo:
  "length (short_term_memory (run_turns turns (init_mind tree))) \<le> 5
   \<and> (length (short_term_memory m) \<le> 5
        \<longrightarrow> length (short_term_memory (archive_current_state m)) \<le> 5)
   \<and> (length (short_term_memory m) = 5 \<and> significant_states m \<noteq> []
        \<longrightarrow> short_term_memory (archive_current_state m) =
              tl (short_term_memory m) @ [current_entry m])
   \<and> (length (short_term_memory m) < 5 \<and> significant_states m \<noteq> []
        \<longrightarrow> short_term_memory (archive_current_state m) =
              short_term_memory m @ [current_entry m])
   \<and> (significant_states m = [] \<longrightarrow> archive_current_state m = m)
   \<and> short_term_memory (fold record_snapshot snaps (init_mind tree)) =
       most_recent 5 (map snapshot_entry (filter recorded snaps))"
proof -
  have init: "length (short_term_memory (init_mind tree)) \<le> 5"
    "short_term_memory (init_mind tree) = []"
    by (simp_all add: init_mind_def)
  from init(1) have a: "length (short_term_memory (run_turns turns (init_mind tree))) \<le> 5"
    by (rule length_run_turns)
  have c: "length (short_term_memory m) = 5 \<and> significant_states m \<noteq> []
        \<longrightarrow> short_term_memory (archive_current_state m) =
              tl (short_term_memory m) @ [current_entry m]"
    by (cases "short_term_memory m") (auto simp: archive_current_state_def Let_def)
  have f: "short_term_memory (fold record_snapshot snaps (init_mind tree)) =
       most_recent 5 (map snapshot_entry (filter recorded snaps))"
    using memory_fold_record_snapshot [OF init(1), of snaps] by (simp add: init(2))
  from a c f length_archive [of m] archive_below_bound [of m] archive_nothing [of m]
  show ?thesis by blast
qed

text \<open>
  A memory of five entries, from which archiving drops the oldest one, of timestamp 1; an
  empty memory, to which the entry is appended; a store without a significant state, which
  is not recorded; and seven record operations, one of them not recorded, after which the
  memory holds the entries of the last five recorded ones in their order.
\<close>

theorem memory_bounded_fifo_witness:
  "length (short_term_memory full_memory_mind) = 5
   \<and> significant_states full_memory_mind \<noteq> []
   \<and> short_term_memory (archive_current_state full_memory_mind) =
       [example_entry 3, example_entry 5, example_entry 7, example_entry 9,
        \<lparr>states = [(Gnev, 0.8)], entry_empathy_target = Some [Gnev], timestamp = 10\<rparr>]
   \<and> length (short_term_memory (archive_current_state full_memory_mind)) \<le> 5
   \<and> short_term_memory
         (archive_current_state ((init_mind test_tree)\<lparr>active_nodes := [(Gnev, 0.8)]\<rparr>)) =
       [\<lparr>states = [(Gnev, 0.8)], entry_empathy_target = None, timestamp = 0\<rparr>]
   \<and> archive_current_state (init_mind test_tree) = init_mind test_tree
   \<and> short_term_memory
         (fold record_snapshot
            [example_snapshot 1, example_snapshot 2, faded_snapshot, example_snapshot 3,
             example_snapshot 4, example_snapshot 5, example_snapshot 6]
            (init_mind test_tree)) =
       map snapshot_entry
         [example_snapshot 2, example_snapshot 3, example_snapshot 4, example_snapshot 5,
          example_snapshot 6]"
proof -
  have len: "length (short_term_memory full_memory_mind) = 5"
    by (simp add: full_memory_mind_def)
  have sig: "significant_states full_memory_mind \<noteq> []"
    by (simp add: full_memory_mind_def significant_states_def)
  have entry: "current_entry full_memory_mind =
      \<lparr>states = [(Gnev, 0.8)], entry_empathy_target = Some [Gnev], timestamp = 10\<rparr>"
    by (simp add: full_memory_mind_def current_entry_def significant_states_def)
  have old: "tl (short_term_memory full_memory_mind) =
      [example_entry 3, example_entry 5, example_entry 7, example_entry 9]"
    by (simp add: full_memory_mind_def)
  from memory_bounded_fifo [of "[]" test_tree full_memory_mind "[]"] len sig
  have full: "short_term_memory (archive_current_state full_memory_mind) =
          tl (short_term_memory full_memory_mind) @ [current_entry full_memory_mind]
        \<and> length (short_term_memory (archive_current_state full_memory_mind)) \<le> 5"
    by simp
  let ?fresh = "(init_mind test_tree)\<lparr>active_nodes := [(Gnev, 0.8)]\<rparr>"
  have fresh: "length (short_term_memory ?fresh) < 5" "significant_states ?fresh \<noteq> []"
    "short_term_memory ?fresh = []"
    "current_entry ?fresh =
       \<lparr>states = [(Gnev, 0.8)], entry_empathy_target = None, timestamp = 0\<rparr>"
    by (simp_all add: init_mind_def significant_states_def current_entry_def)
  from memory_bounded_fifo [of "[]" test_tree ?fresh "[]"] fresh(1,2)
  have "short_term_memory (archive_current_state ?fresh) =
      short_term_memory ?fresh @ [current_entry ?fresh]"
    by blast
  then have below: "short_term_memory (archive_current_state ?fresh) =
      [\<lparr>states = [(Gnev, 0.8)], entry_empathy_target = None, timestamp = 0\<rparr>]"
    unfolding fresh(3,4) by simp
  have "significant_states (init_mind test_tree) = []"
    by (simp add: init_mind_def significant_states_def)
  with memory_bounded_fifo [of "[]" test_tree "init_mind test_tree" "[]"]
  have unchanged: "archive_current_state (init_mind test_tree) = init_mind test_tree"
    by blast
  from memory_bounded_fifo [of "[]" test_tree full_memory_mind
      "[example_snapshot 1, example_snapshot 2, faded_snapshot, example_snapshot 3,
        example_snapshot 4, example_snapshot 5, example_snapshot 6]"]
  have seq: "short_term_memory
         (fold record_snapshot
            [example_snapshot 1, example_snapshot 2, faded_snapshot, example_snapshot 3,
             example_snapshot 4, example_snapshot 5, example_snapshot 6]
            (init_mind test_tree)) =
       map snapshot_entry
         [example_snapshot 2, example_snapshot 3, example_snapshot 4, example_snapshot 5,
          example_snapshot 6]"
    by (simp add: recorded_examples most_recent_def)
  from full have evict: "short_term_memory (archive_current_state full_memory_mind) =
       [example_entry 3, example_entry 5, example_entry 7, example_entry 9,
        \<lparr>states = [(Gnev, 0.8)], entry_empathy_target = Some [Gnev], timestamp = 10\<rparr>]"
    and bound: "length (short_term_memory (archive_current_state full_memory_mind)) \<le> 5"
    unfolding entry old by simp_all
  from len sig evict bound below unchanged seq show ?thesis
    by blast
qed

section \<open>Loading\<close>

text \<open>
  Version 2 loads the empty document without an error and with an empty tree: the claim C3
  does not hold of it.
\<close>

theorem load_v2_empty_graph_counterexample:
  "map_of ([] :: state_node list pydict) sostoyaniya = None
   \<and> load_states_tree_v2 [] = Inr []"
  by (simp add: load_states_tree_v2_def py_get_def)

text \<open>
  C3, amended: when the key \<open>sostoyaniya\<close> is absent, the loader of version 3 fails with
  \<open>KeyError\<close>, and the loader of version 2 does not fail: it takes the list under the key
  \<open>tekhnologii\<close>, and the empty list when that key is absent too.
\<close>

theorem load_absent_key:
  "map_of mind_data sostoyaniya = None \<longrightarrow>
     load_states_tree_v3 mind_data = Inl KeyError
     \<and> load_states_tree_v2 mind_data =
         Inr (case map_of mind_data tekhnologii of None \<Rightarrow> [] | Some tree \<Rightarrow> tree)"
  by (simp add: load_states_tree_v3_def load_states_tree_v2_def py_get_def)

lemma key_neq: "sostoyaniya \<noteq> tekhnologii"
  by (simp add: state_names)

theorem load_absent_key_witness:
  "map_of [(tekhnologii, test_tree)] sostoyaniya = None
   \<and> load_states_tree_v3 [(tekhnologii, test_tree)] = Inl KeyError
   \<and> load_states_tree_v2 [(tekhnologii, test_tree)] = Inr test_tree"
proof -
  have h: "map_of [(tekhnologii, test_tree)] sostoyaniya = None"
    using key_neq by simp
  from load_absent_key [of "[(tekhnologii, test_tree)]"] h show ?thesis
    by simp
qed

section \<open>The order of decay and propagation\<close>

lemma distinct_activate_state:
  "distinct (map fst active) \<Longrightarrow> distinct (map fst (activate_state nm s active))"
  by (simp add: activate_state_def distinct_update split: option.splits)

lemma distinct_increase_state:
  "distinct (map fst active) \<Longrightarrow> distinct (map fst (increase_state s active))"
  by (simp add: increase_state_def distinct_update split: option.splits)

lemma distinct_bump_states:
  "distinct (map fst active) \<Longrightarrow> distinct (map fst (bump_states nm acts incs active))"
proof -
  have a: "distinct (map fst d) \<Longrightarrow> distinct (map fst (fold (activate_state nm) xs d))" for xs d
    by (induction xs arbitrary: d) (simp_all add: distinct_activate_state)
  have b: "distinct (map fst d) \<Longrightarrow> distinct (map fst (fold increase_state xs d))" for xs d
    by (induction xs arbitrary: d) (simp_all add: distinct_increase_state)
  show "distinct (map fst active) \<Longrightarrow> ?thesis"
    unfolding bump_states_def by (intro a b)
qed

lemma update_append_absent:
  "k \<notin> fst ` set xs \<Longrightarrow> AList.update k v (xs @ ys) = xs @ AList.update k v ys"
  by (induction xs) auto

lemma delete_append: "AList.delete k (xs @ ys) = AList.delete k xs @ AList.delete k ys"
  by (simp add: AList.delete_eq)

lemma map_of_append_absent:
  "k \<notin> fst ` set xs \<Longrightarrow> map_of (xs @ ys) k = map_of ys k"
  by (induction xs) auto

lemma fade_state_head:
  assumes "k \<notin> fst ` set seen" and "k \<notin> fst ` set rest"
  shows "fade_state f k (seen @ (k, v) # rest) =
           (if v * f < 0.1 then seen @ rest else seen @ (k, v * f) # rest)"
proof -
  have look: "map_of (seen @ (k, v) # rest) k = Some v"
    unfolding map_of_append_absent [OF assms(1)] by simp
  have upd: "AList.update k (v * f) (seen @ (k, v) # rest) = seen @ (k, v * f) # rest"
    using assms(1) by (simp add: update_append_absent)
  have del: "AList.delete k (seen @ (k, v * f) # rest) = seen @ rest"
    using assms by (simp add: delete_append)
  show ?thesis
    unfolding fade_state_def look by (simp add: upd del)
qed

lemma fold_fade_state:
  "distinct (map fst (seen @ todo)) \<Longrightarrow>
   fold (fade_state f) (map fst todo) (seen @ todo) = seen @ decay_all f todo"
proof (induction todo arbitrary: seen)
  case Nil
  then show ?case by (simp add: decay_all_def)
next
  case (Cons item todo)
  obtain k v where item: "item = (k, v)" by (cases item)
  from Cons.prems item have k1: "k \<notin> fst ` set seen" and k2: "k \<notin> fst ` set todo"
    by auto
  show ?case
  proof (cases "v * f < 0.1")
    case True
    from Cons.prems have "distinct (map fst (seen @ todo))" by simp
    from Cons.IH [OF this] True show ?thesis
      by (simp add: item fade_state_head [OF k1 k2] decay_all_def)
  next
    case False
    from Cons.prems item have "distinct (map fst ((seen @ [(k, v * f)]) @ todo))" by auto
    from Cons.IH [OF this] False show ?thesis
      by (simp add: item fade_state_head [OF k1 k2] decay_all_def)
  qed
qed

lemma natural_decay_decay_all:
  "distinct (map fst active) \<Longrightarrow> natural_decay active = decay_all 0.92 active"
  using fold_fade_state [of "[]" active "0.92"] by (simp add: natural_decay_def)

lemma update_activation_decay_all:
  "distinct (map fst active) \<Longrightarrow>
   update_activation nm acts incs active = decay_all 0.92 (bump_states nm acts incs active)"
  using natural_decay_decay_all [OF distinct_bump_states, of active nm acts incs]
  by (simp add: update_activation_def bump_states_def)

lemma active_nodes_archive: "active_nodes (archive_current_state m) = active_nodes m"
  by (simp add: archive_current_state_def Let_def)

lemma code_turn_update:
  "update_activation (states_dict test_tree) [Trevoga] [] [] = [(Trevoga, 0.644)]"
  by (simp add: update_activation_def activate_state_def natural_decay_def fade_state_def
      states_dict_def test_tree_def)

lemma code_turn_iteration_1:
  "propagate_iteration test_tree [(Trevoga, 0.644)] =
     [(Trevoga, 0.644), (Gnev, 0.322), (Somnenie, 0.322)]"
  by (simp add: propagation_defs)

lemma code_turn_iteration_2:
  "propagate_iteration test_tree [(Trevoga, 0.644), (Gnev, 0.322), (Somnenie, 0.322)] =
     [(Trevoga, 0.644), (Gnev, 0.644), (Somnenie, 0.644)]"
  by (simp add: propagation_defs)

lemma code_turn_iteration_3:
  "propagate_iteration test_tree [(Trevoga, 0.644), (Gnev, 0.644), (Somnenie, 0.644)] =
     [(Trevoga, 0.644), (Gnev, 0.966), (Somnenie, 0.966), (Obektivizatsiya, 0.322)]"
  by (simp add: propagation_defs)

lemma code_turn_store:
  "active_nodes (fst (process_message (''hello'', silent_replies) (init_mind test_tree))) =
     [(Trevoga, 0.644), (Gnev, 0.966), (Somnenie, 0.966), (Obektivizatsiya, 0.322)]"
proof -
  have "active_nodes (fst (process_message (''hello'', silent_replies) (init_mind test_tree))) =
      propagate_activation test_tree 3 (update_activation (states_dict test_tree) [Trevoga] [] [])"
    by (simp add: process_message_def Let_def silent_replies_def init_mind_def)
  then show ?thesis
    by (simp only: propagate_activation_3 code_turn_update code_turn_iteration_1
        code_turn_iteration_2 code_turn_iteration_3)
qed

lemma spec_turn_bump: "bump_states (states_dict test_tree) [Trevoga] [] [] = [(Trevoga, 0.7)]"
  by (simp add: bump_states_def activate_state_def states_dict_def test_tree_def)

lemma spec_turn_iteration_1:
  "propagate_iteration test_tree [(Trevoga, 0.7)] =
     [(Trevoga, 0.7), (Gnev, 0.35), (Somnenie, 0.35)]"
  by (simp add: propagation_defs)

lemma spec_turn_iteration_2:
  "propagate_iteration test_tree [(Trevoga, 0.7), (Gnev, 0.35), (Somnenie, 0.35)] =
     [(Trevoga, 0.7), (Gnev, 0.7), (Somnenie, 0.7)]"
  by (simp add: propagation_defs)

lemma spec_turn_iteration_3:
  "propagate_iteration test_tree [(Trevoga, 0.7), (Gnev, 0.7), (Somnenie, 0.7)] =
     [(Trevoga, 0.7), (Gnev, 1), (Somnenie, 1), (Obektivizatsiya, 0.35)]"
  by (simp add: propagation_defs)

lemma spec_turn_decay:
  "decay_all 0.92 [(Trevoga, 0.7), (Gnev, 1), (Somnenie, 1), (Obektivizatsiya, 0.35)] =
     [(Trevoga, 0.644), (Gnev, 0.92), (Somnenie, 0.92), (Obektivizatsiya, 0.322)]"
  by (simp add: decay_all_def)

lemma spec_turn_store_value:
  "spec_turn_store test_tree [Trevoga] [] [] =
     [(Trevoga, 0.644), (Gnev, 0.92), (Somnenie, 0.92), (Obektivizatsiya, 0.322)]"
  by (simp only: spec_turn_store_def propagate_activation_3 spec_turn_bump
      spec_turn_iteration_1 spec_turn_iteration_2 spec_turn_iteration_3 spec_turn_decay)

text \<open>
  The claim C9 puts the decay after the propagation. In the source the decay is the last
  loop of \<open>update_activation\<close>, which \<open>process_message\<close> calls before
  \<open>propagate_activation\<close>. On the tree of the propagation experiment, a silent turn that
  activates Trevoga leaves Gnev at 0.966, whereas the order of the claim gives 0.92.
\<close>

theorem decay_after_propagation_counterexample:
  "active_nodes (fst (process_message (''hello'', silent_replies) (init_mind test_tree))) =
     [(Trevoga, 0.644), (Gnev, 0.966), (Somnenie, 0.966), (Obektivizatsiya, 0.322)]
   \<and> spec_turn_store test_tree (states_to_activate silent_replies)
         (states_to_increase silent_replies) (active_nodes (init_mind test_tree)) =
     [(Trevoga, 0.644), (Gnev, 0.92), (Somnenie, 0.92), (Obektivizatsiya, 0.322)]
   \<and> active_nodes (fst (process_message (''hello'', silent_replies) (init_mind test_tree))) \<noteq>
     spec_turn_store test_tree (states_to_activate silent_replies)
       (states_to_increase silent_replies) (active_nodes (init_mind test_tree))"
proof -
  have args: "states_to_activate silent_replies = [Trevoga]"
    "states_to_increase silent_replies = []" "active_nodes (init_mind test_tree) = []"
    by (simp_all add: silent_replies_def init_mind_def)
  show ?thesis
    unfolding args code_turn_store spec_turn_store_value by simp
qed

text \<open>
  C9, amended: in every processed turn the decay (every activation times 0.92, entries below
  0.1 removed) is applied exactly once, after the classifier-driven update and before the
  three propagation iterations; when the turn answers, the store is then reduced by
  \<open>reduce_weights_after_response\<close>.
\<close>

theorem decay_once_before_propagation:
  assumes "distinct (map fst (active_nodes m))"
  shows "active_nodes (fst (process_message (user_input, r) m)) =
     (let store = propagate_activation (states_tree m) 3
                    (decay_all 0.92
                       (bump_states (states_dict (states_tree m)) (states_to_activate r)
                          (states_to_increase r) (active_nodes m)))
      in if should_respond r \<and> response_themes r \<noteq> []
         then reduce_weights_after_response store else store)"
  by (simp add: process_message_def Let_def active_nodes_archive
      update_activation_decay_all [OF assms])

theorem decay_once_before_propagation_witness:
  "distinct (map fst (active_nodes (init_mind test_tree)))
   \<and> active_nodes (fst (process_message (''hello'', silent_replies) (init_mind test_tree))) =
       propagate_activation test_tree 3
         (decay_all 0.92 (bump_states (states_dict test_tree) [Trevoga] [] []))"
proof -
  have h: "distinct (map fst (active_nodes (init_mind test_tree)))"
    by (simp add: init_mind_def)
  from decay_once_before_propagation [OF h, of "''hello''" silent_replies] h show ?thesis
    by (simp add: silent_replies_def init_mind_def)
qed

section \<open>The bounds of the activations\<close>

lemma bounded_activate_state:
  "bounded_store active \<Longrightarrow> bounded_store (activate_state nm s active)"
  by (auto simp: activate_state_def split: option.splits
      intro!: bounded_update dest: bounded_lookup)

lemma bounded_increase_state:
  "bounded_store active \<Longrightarrow> bounded_store (increase_state s active)"
  by (auto simp: increase_state_def split: option.splits
      intro!: bounded_update dest: bounded_lookup)

lemma bounded_fade_state:
  assumes "bounded_store active" and "0 \<le> f" and "f \<le> 1"
  shows "bounded_store (fade_state f s active)"
proof (cases "map_of active s")
  case None
  with assms show ?thesis by (simp add: fade_state_def)
next
  case (Some v)
  with assms(1) have "0 \<le> v" "v \<le> 1"
    by (auto dest: bounded_lookup)
  with assms(2,3) have "0 \<le> v * f" "v * f \<le> 1"
    by (simp_all add: mult_le_one)
  with assms(1) have "bounded_store (AList.update s (v * f) active)"
    by (intro bounded_update)
  with Some show ?thesis
    by (simp add: fade_state_def bounded_delete)
qed

lemma bounded_fold:
  assumes "\<And>x d. bounded_store d \<Longrightarrow> bounded_store (step x d)"
  shows "bounded_store d \<Longrightarrow> bounded_store (fold step xs d)"
  by (induction xs arbitrary: d) (simp_all add: assms)

lemma bounded_update_activation:
  "bounded_store active \<Longrightarrow> bounded_store (update_activation nm acts incs active)"
  unfolding update_activation_def natural_decay_def
  by (intro bounded_fold bounded_fade_state bounded_increase_state bounded_activate_state) simp_all

lemma bounded_reduce_weights:
  "bounded_store active \<Longrightarrow> bounded_store (reduce_weights_after_response active)"
  unfolding reduce_weights_after_response_def reduce_state_def
  by (intro bounded_fold bounded_fade_state) simp_all

lemma bounded_add_influence:
  "bounded_store na \<Longrightarrow> 0 \<le> i \<Longrightarrow> i \<le> 1 \<Longrightarrow> bounded_store (add_influence i c na)"
  by (auto simp: add_influence_def split: option.splits
      intro!: bounded_update dest: bounded_lookup)

lemma bounded_spread:
  assumes "bounded_store na" and "0 \<le> snd item" and "snd item \<le> 1"
  shows "bounded_store (spread tree item na)"
proof -
  obtain s a where item: "item = (s, a)" by (cases item)
  with assms have "0 \<le> a * 0.5" "a * 0.5 \<le> 1" by simp_all
  then have "bounded_store (fold (add_influence (a * 0.5)) cs na)" for cs
    using assms(1) by (intro bounded_fold bounded_add_influence)
  then show ?thesis
    using assms(1) by (simp add: spread_def item)
qed

lemma bounded_fold_spread:
  "bounded_store na \<Longrightarrow> bounded_store items \<Longrightarrow> bounded_store (fold (spread tree) items na)"
proof (induction items arbitrary: na)
  case Nil
  then show ?case by simp
next
  case (Cons item items)
  from Cons.prems(2) have "0 \<le> snd item" "snd item \<le> 1" "bounded_store items"
    by (auto simp: bounded_store_def)
  with Cons.prems(1) Cons.IH show ?case
    by (simp add: bounded_spread)
qed

lemma bounded_new_activations:
  "bounded_store active \<Longrightarrow> bounded_store (new_activations tree active)"
  unfolding new_activations_def by (rule bounded_fold_spread) (simp_all add: bounded_store_def)

lemma bounded_apply_activation:
  "bounded_store active \<Longrightarrow> 0 \<le> snd item \<Longrightarrow> snd item \<le> 1 \<Longrightarrow>
   bounded_store (apply_activation item active)"
  by (cases item)
    (auto simp: apply_activation_def split: option.splits
      intro!: bounded_update dest: bounded_lookup)

lemma bounded_fold_apply_activation:
  "bounded_store active \<Longrightarrow> bounded_store na \<Longrightarrow> bounded_store (fold apply_activation na active)"
proof (induction na arbitrary: active)
  case Nil
  then show ?case by simp
next
  case (Cons item na)
  from Cons.prems(2) have "0 \<le> snd item" "snd item \<le> 1" "bounded_store na"
    by (auto simp: bounded_store_def)
  with Cons.prems(1) Cons.IH show ?case
    by (simp add: bounded_apply_activation)
qed

lemma bounded_propagate_iteration:
  "bounded_store active \<Longrightarrow> bounded_store (propagate_iteration tree active)"
  unfolding propagate_iteration_def
  by (intro bounded_fold_apply_activation bounded_new_activations)

lemma bounded_propagate_activation:
  "bounded_store active \<Longrightarrow> bounded_store (propagate_activation tree n active)"
  by (induction n arbitrary: active) (simp_all add: bounded_propagate_iteration)

lemma bounded_store_step:
  "bounded_store active \<Longrightarrow> bounded_store (store_step tree op active)"
  by (cases op)
    (simp_all add: bounded_update_activation bounded_propagate_activation bounded_reduce_weights)

lemma bounded_process_message:
  "bounded_store (active_nodes m) \<Longrightarrow> bounded_store (active_nodes (fst (process_message turn m)))"
  by (cases turn)
    (simp add: process_message_def Let_def active_nodes_archive bounded_update_activation
      bounded_propagate_activation bounded_reduce_weights)

lemma bounded_run_turns:
  "bounded_store (active_nodes m) \<Longrightarrow> bounded_store (active_nodes (run_turns turns m))"
  unfolding run_turns_def
  by (induction turns arbitrary: m) (simp_all add: bounded_process_message)

(* v3 *)
lemma bounded_raise_parents:
  "bounded_store weights \<Longrightarrow> 0 \<le> a \<Longrightarrow> bounded_store (fst (raise_parents a ps weights))"
proof (induction ps arbitrary: weights)
  case Nil
  then show ?case by simp
next
  case (Cons p ps)
  show ?case
  proof (cases "map_of weights p")
    case None
    with Cons.prems show ?thesis by simp
  next
    case (Some w)
    with Cons.prems have "0 \<le> w" by (auto dest: bounded_lookup)
    with Cons.prems have "bounded_store (AList.update p (min 1 (w + a * 0.5)) weights)"
      by (intro bounded_update) simp_all
    from Cons.IH [OF this Cons.prems(2)] Some show ?thesis by simp
  qed
qed

lemma bounded_increase_state_weight:
  assumes "bounded_store weights" and "0 \<le> a"
  shows "bounded_store (fst (increase_state_weight depth sd s a weights))"
proof (cases "map_of weights s")
  case None
  with assms show ?thesis by (simp add: increase_state_weight_def)
next
  case (Some w)
  with assms have "0 \<le> w" by (auto dest: bounded_lookup)
  with assms have b: "bounded_store (AList.update s (min 1 (w + a)) weights)"
    by (intro bounded_update) simp_all
  show ?thesis
    using b bounded_raise_parents [OF b assms(2)]
    by (simp add: increase_state_weight_def Some Let_def split: sum.splits)
qed

lemma bounded_decrease_state_weight:
  assumes "bounded_store weights" and "0 \<le> a"
  shows "bounded_store (decrease_state_weight s a weights)"
proof (cases "map_of weights s")
  case None
  with assms show ?thesis by (simp add: decrease_state_weight_def)
next
  case (Some w)
  with assms have "w \<le> 1" by (auto dest: bounded_lookup)
  with assms have "bounded_store (AList.update s (max 0 (w - a)) weights)"
    by (intro bounded_update) simp_all
  with Some show ?thesis by (simp add: decrease_state_weight_def)
qed

lemma bounded_weight_step:
  "bounded_store weights \<Longrightarrow> 0 \<le> op_amount op \<Longrightarrow> bounded_store (weight_step depth sd op weights)"
  by (cases op) (simp_all add: bounded_increase_state_weight bounded_decrease_state_weight)

lemma bounded_fold_weight_step:
  "bounded_store weights \<Longrightarrow> \<forall>op \<in> set ops. 0 \<le> op_amount op \<Longrightarrow>
   bounded_store (fold (weight_step depth sd) ops weights)"
  by (induction ops arbitrary: weights) (simp_all add: bounded_weight_step)

lemma bounded_init_state_weights:
  assumes "\<forall>node \<in> set tree. \<forall>w. ves node = Some w \<longrightarrow> 0 \<le> w \<and> w \<le> 1"
  shows "bounded_store (init_state_weights tree)"
proof -
  have w: "0 \<le> initial_weight node \<and> initial_weight node \<le> 1" if "node \<in> set tree" for node
    using assms that by (cases "ves node") (auto simp: initial_weight_def)
  have "bounded_store d \<Longrightarrow> set t \<subseteq> set tree \<Longrightarrow>
        bounded_store (fold (\<lambda>state d. AList.update (nazvanie state) (initial_weight state) d) t d)"
    for t d
  proof (induction t arbitrary: d)
    case Nil
    then show ?case by simp
  next
    case (Cons node t)
    from Cons.prems w [of node]
    have "bounded_store (AList.update (nazvanie node) (initial_weight node) d)"
      by (intro bounded_update) simp_all
    with Cons.IH Cons.prems(2) show ?case by simp
  qed
  from this [of "[]" tree] show ?thesis
    by (simp add: init_state_weights_def bounded_store_def)
qed

text \<open>
  C1: every sequence of \<open>update_activation\<close> (which contains the decay),
  \<open>propagate_activation\<close> and \<open>reduce_weights_after_response\<close> takes a store whose
  values lie between 0 and 1 to such a store, and so does every sequence of processed
  messages from the empty store. The weight table of version 3 starts within the bounds
  when the weights of the tree do, and every sequence of \<open>increase_state_weight\<close> and
  \<open>decrease_state_weight\<close> with non-negative amounts keeps it there, also when a call ends
  in an exception. Reading an absent state with the default 0.0 gives 0, so that the
  pressure of version 1 is 0 when no trigger state is in the store.
\<close>

theorem activations_stay_in_unit_interval:
  "(bounded_store active \<longrightarrow> bounded_store (fold (store_step tree) ops active))
   \<and> bounded_store (active_nodes (run_turns turns (init_mind tree)))
   \<and> ((\<forall>node \<in> set tree. \<forall>w. ves node = Some w \<longrightarrow> 0 \<le> w \<and> w \<le> 1)
        \<longrightarrow> bounded_store (init_state_weights tree))
   \<and> (bounded_store weights \<and> (\<forall>op \<in> set weight_ops. 0 \<le> op_amount op)
        \<longrightarrow> bounded_store (fold (weight_step depth sd) weight_ops weights))
   \<and> (map_of active s = None \<longrightarrow> py_get active s 0 = 0)
   \<and> ((\<forall>node \<in> set trigger_nodes. map_of active node = None)
        \<longrightarrow> calculate_pressure_v1 active = 0)"
proof -
  have a: "bounded_store active \<longrightarrow> bounded_store (fold (store_step tree) ops active)"
    by (induction ops arbitrary: active) (simp_all add: bounded_store_step)
  have "bounded_store (active_nodes (init_mind tree))"
    by (simp add: init_mind_def bounded_store_def)
  then have b: "bounded_store (active_nodes (run_turns turns (init_mind tree)))"
    by (rule bounded_run_turns)
  have e: "map_of active s = None \<longrightarrow> py_get active s 0 = 0"
    by (simp add: py_get_def)
  have f: "(\<forall>node \<in> set trigger_nodes. map_of active node = None)
        \<longrightarrow> calculate_pressure_v1 active = 0"
    by (simp add: calculate_pressure_v1_def trigger_nodes_def py_get_def)
  from a b e f bounded_init_state_weights [of tree]
    bounded_fold_weight_step [of weights weight_ops depth sd]
  show ?thesis by blast
qed


lemma example_weight_ops:
  "fold (weight_step 10 (states_dict test_tree)) [Increase Trevoga 0.2, Decrease Gnev 0.3]
     [(Pustota, 0.95), (Trevoga, 0.9), (Gnev, 0.1)] = [(Pustota, 1), (Trevoga, 1), (Gnev, 0)]"
  by (simp add: increase_state_weight_def decrease_state_weight_def states_dict_def
      test_tree_def conditions_of_def set_add_def set_update_def numeral_eq_Suc)

theorem activations_stay_in_unit_interval_witness:
  "bounded_store [(Trevoga, 0.8)]
   \<and> bounded_store (fold (store_step test_tree)
         [UpdateActivation [Gnev] [Trevoga], PropagateActivation 3, ReduceWeightsAfterResponse]
         [(Trevoga, 0.8)])
   \<and> map ves test_tree = [Some 0, Some 0, Some 0, Some 0, Some 0]
   \<and> bounded_store (init_state_weights test_tree)
   \<and> bounded_store [(Pustota, 0.95), (Trevoga, 0.9), (Gnev, 0.1)]
   \<and> map op_amount [Increase Trevoga 0.2, Decrease Gnev 0.3] = [0.2, 0.3]
   \<and> fold (weight_step 10 (states_dict test_tree)) [Increase Trevoga 0.2, Decrease Gnev 0.3]
         [(Pustota, 0.95), (Trevoga, 0.9), (Gnev, 0.1)] = [(Pustota, 1), (Trevoga, 1), (Gnev, 0)]
   \<and> bounded_store [(Pustota, 1), (Trevoga, 1), (Gnev, 0)]
   \<and> map_of [(Trevoga, 0.8::real)] Gnev = None
   \<and> py_get [(Trevoga, 0.8::real)] Gnev 0 = 0
   \<and> map (map_of [(Trevoga, 0.8::real)]) trigger_nodes = [None, None, None, None, None]
   \<and> calculate_pressure_v1 [(Trevoga, 0.8)] = 0"
proof -
  have h1: "bounded_store [(Trevoga, 0.8)]"
    by (simp add: bounded_store_def)
  have h2: "\<forall>node \<in> set test_tree. \<forall>w. ves node = Some w \<longrightarrow> 0 \<le> w \<and> w \<le> 1"
    by (simp add: test_tree_def)
  have h3: "bounded_store [(Pustota, 0.95), (Trevoga, 0.9), (Gnev, 0.1)]"
    by (simp add: bounded_store_def)
  have h4: "\<forall>op \<in> set [Increase Trevoga 0.2, Decrease Gnev 0.3]. 0 \<le> op_amount op"
    by simp
  have h5: "map_of [(Trevoga, 0.8::real)] Gnev = None"
    by simp
  have h6: "\<forall>node \<in> set trigger_nodes. map_of [(Trevoga, 0.8::real)] node = None"
    by (simp add: trigger_nodes_def)
  from activations_stay_in_unit_interval [of "[(Trevoga, 0.8)]" test_tree
      "[UpdateActivation [Gnev] [Trevoga], PropagateActivation 3, ReduceWeightsAfterResponse]"
      "[]" "[(Pustota, 0.95), (Trevoga, 0.9), (Gnev, 0.1)]"
      "[Increase Trevoga 0.2, Decrease Gnev 0.3]" 10 "states_dict test_tree" Gnev]
    h1 h2 h3 h4 h5 h6
  have "bounded_store (fold (store_step test_tree)
         [UpdateActivation [Gnev] [Trevoga], PropagateActivation 3, ReduceWeightsAfterResponse]
         [(Trevoga, 0.8)])
     \<and> bounded_store (init_state_weights test_tree)
     \<and> bounded_store [(Pustota, 1), (Trevoga, 1), (Gnev, 0)]
     \<and> py_get [(Trevoga, 0.8::real)] Gnev 0 = 0
     \<and> calculate_pressure_v1 [(Trevoga, 0.8)] = 0"
    unfolding example_weight_ops by blast
  moreover have "map ves test_tree = [Some 0, Some 0, Some 0, Some 0, Some 0]"
    by (simp add: test_tree_def)
  moreover have "map op_amount [Increase Trevoga 0.2, Decrease Gnev 0.3] = [0.2, 0.3]"
    by simp
  moreover
  have "map (map_of [(Trevoga, 0.8::real)]) trigger_nodes = [None, None, None, None, None]"
    by (simp add: trigger_nodes_def)
  ultimately show ?thesis
    using h1 h3 h5 example_weight_ops by blast
qed

section \<open>Parent states\<close>

lemma set_set_add [simp]: "set (set_add x s) = insert x (set s)"
  by (auto simp: set_add_def)

lemma distinct_set_add [simp]: "distinct s \<Longrightarrow> distinct (set_add x s)"
  by (simp add: set_add_def)

lemma set_set_update [simp]: "set (set_update s t) = set s \<union> set t"
  unfolding set_update_def by (induction t arbitrary: s) auto

lemma distinct_set_update [simp]: "distinct s \<Longrightarrow> distinct (set_update s t)"
  unfolding set_update_def by (induction t arbitrary: s) auto

lemma parents_loop_calls:
  "parents_loop sd rec cs acc = Inr ps \<Longrightarrow> c \<in> set cs \<Longrightarrow> map_of sd c \<noteq> None \<Longrightarrow>
   \<exists>r. rec c = Inr r"
  by (induction sd rec cs acc rule: parents_loop.induct)
    (auto split: if_splits sum.splits)

lemma parents_loop_set:
  assumes "parents_loop sd rec cs acc = Inr ps"
    and "\<And>c r. c \<in> set cs \<Longrightarrow> rec c = Inr r \<Longrightarrow> set r = A c"
  shows "set ps = set acc \<union> (\<Union>c \<in> {c \<in> set cs. map_of sd c \<noteq> None}. insert c (A c))"
  using assms
proof (induction sd rec cs acc rule: parents_loop.induct)
  case (1 sd rec parents)
  then show ?case by simp
next
  case (2 sd rec condition conditions parents)
  show ?case
  proof (cases "map_of sd condition = None")
    case True
    with 2 show ?thesis by auto
  next
    case False
    with "2.prems"(1) obtain r where r: "rec condition = Inr r"
      by (auto split: sum.splits)
    with "2.prems"(2) have rA: "set r = A condition" by simp
    from False r "2.prems"(1)
    have "parents_loop sd rec conditions (set_update (set_add condition parents) r) = Inr ps"
      by simp
    from "2.IH"(1) [OF False r this] "2.prems"(2)
    have "set ps = set (set_update (set_add condition parents) r) \<union>
        (\<Union>c \<in> {c \<in> set conditions. map_of sd c \<noteq> None}. insert c (A c))"
      by simp
    with False rA show ?thesis by auto
  qed
qed

lemma parents_loop_distinct:
  "parents_loop sd rec cs acc = Inr ps \<Longrightarrow> distinct acc \<Longrightarrow> distinct ps"
  by (induction sd rec cs acc rule: parents_loop.induct)
    (auto split: if_splits sum.splits)

lemma parents_loop_returns:
  "(\<And>c. c \<in> set cs \<Longrightarrow> map_of sd c \<noteq> None \<Longrightarrow> \<exists>r. rec c = Inr r) \<Longrightarrow>
   \<exists>ps. parents_loop sd rec cs acc = Inr ps"
proof (induction sd rec cs acc rule: parents_loop.induct)
  case (1 sd rec parents)
  then show ?case by simp
next
  case (2 sd rec condition conditions parents)
  show ?case
  proof (cases "map_of sd condition = None")
    case True
    with 2 show ?thesis by simp
  next
    case False
    with "2.prems" obtain r where r: "rec condition = Inr r" by auto
    from "2.IH"(1) [OF False r] "2.prems" False r show ?thesis by simp
  qed
qed

lemma parents_loop_cong:
  "(\<And>c. c \<in> set cs \<Longrightarrow> map_of sd c \<noteq> None \<Longrightarrow> rec c = rec' c) \<Longrightarrow>
   parents_loop sd rec cs acc = parents_loop sd rec' cs acc"
proof (induction sd rec cs acc rule: parents_loop.induct)
  case (1 sd rec parents)
  then show ?case by simp
next
  case (2 sd rec condition conditions parents)
  show ?case
  proof (cases "map_of sd condition = None")
    case True
    with 2 show ?thesis by simp
  next
    case False
    with "2.prems" have eq: "rec condition = rec' condition" by simp
    show ?thesis
    proof (cases "rec condition")
      case (Inl e)
      with eq have "rec' condition = Inl e" by simp
      with Inl False show ?thesis by simp
    next
      case (Inr r)
      with eq have r': "rec' condition = Inr r" by simp
      from "2.IH"(1) [OF False Inr] "2.prems" have
        "parents_loop sd rec conditions (set_update (set_add condition parents) r) =
         parents_loop sd rec' conditions (set_update (set_add condition parents) r)"
        by simp
      with Inr r' False show ?thesis by simp
    qed
  qed
qed

lemma condition_edges_iff:
  "(s, c) \<in> condition_edges sd \<longleftrightarrow>
     (\<exists>node. map_of sd s = Some node \<and> c \<in> set (conditions_of node) \<and> map_of sd c \<noteq> None)"
  by (simp add: condition_edges_def)

lemma ancestors_absent: "map_of sd s = None \<Longrightarrow> ancestors sd s = {}"
  by (auto simp: ancestors_def condition_edges_iff dest: tranclD)

lemma ancestors_unfold:
  assumes "map_of sd s = Some node"
  shows "ancestors sd s =
     (\<Union>c \<in> {c \<in> set (conditions_of node). map_of sd c \<noteq> None}. insert c (ancestors sd c))"
proof -
  have step: "(s, c) \<in> condition_edges sd \<longleftrightarrow> c \<in> set (conditions_of node) \<and> map_of sd c \<noteq> None"
    for c
    using assms by (simp add: condition_edges_iff)
  have "(s, p) \<in> (condition_edges sd)\<^sup>+ \<longleftrightarrow>
      (\<exists>c. (s, c) \<in> condition_edges sd \<and> (c = p \<or> (c, p) \<in> (condition_edges sd)\<^sup>+))" for p
    by (metis converse_tranclE trancl.r_into_trancl trancl_into_trancl2)
  then show ?thesis
    unfolding ancestors_def using step by auto
qed

lemma get_parent_states_ancestors:
  "get_parent_states depth sd s = Inr ps \<Longrightarrow> set ps = ancestors sd s"
proof (induction depth arbitrary: s ps)
  case 0
  then show ?case by simp
next
  case (Suc depth)
  show ?case
  proof (cases "map_of sd s")
    case None
    with Suc.prems show ?thesis by (simp add: ancestors_absent)
  next
    case (Some node)
    with Suc.prems
    have loop: "parents_loop sd (get_parent_states depth sd) (conditions_of node) [] = Inr ps"
      by simp
    from parents_loop_set [OF loop, of "ancestors sd"] Suc.IH
    show ?thesis
      by (simp add: ancestors_unfold [OF Some])
  qed
qed

lemma get_parent_states_distinct:
  "get_parent_states depth sd s = Inr ps \<Longrightarrow> distinct ps"
  by (cases depth) (auto split: option.splits dest: parents_loop_distinct)

lemma get_parent_states_Suc:
  "get_parent_states depth sd s = Inr ps \<Longrightarrow> get_parent_states (Suc depth) sd s = Inr ps"
proof (induction depth arbitrary: s ps)
  case 0
  then show ?case by simp
next
  case (Suc depth)
  show ?case
  proof (cases "map_of sd s")
    case None
    with Suc.prems show ?thesis by simp
  next
    case (Some node)
    with Suc.prems
    have loop: "parents_loop sd (get_parent_states depth sd) (conditions_of node) [] = Inr ps"
      by simp
    have "get_parent_states depth sd c = get_parent_states (Suc depth) sd c"
      if "c \<in> set (conditions_of node)" "map_of sd c \<noteq> None" for c
    proof -
      from parents_loop_calls [OF loop that] obtain r
        where r: "get_parent_states depth sd c = Inr r" by blast
      from Suc.IH [OF r] r show ?thesis by simp
    qed
    from parents_loop_cong [of "conditions_of node" sd "get_parent_states depth sd"
        "get_parent_states (Suc depth) sd" "[]", OF this] loop
    have "parents_loop sd (get_parent_states (Suc depth) sd) (conditions_of node) [] = Inr ps"
      by simp
    with Some show ?thesis by simp
  qed
qed

lemma get_parent_states_mono:
  "get_parent_states depth sd s = Inr ps \<Longrightarrow> depth \<le> depth' \<Longrightarrow>
   get_parent_states depth' sd s = Inr ps"
proof (induction depth')
  case 0
  then show ?case by simp
next
  case (Suc depth')
  show ?case
  proof (cases "depth = Suc depth'")
    case True
    with Suc.prems show ?thesis by blast
  next
    case False
    with Suc.prems have "depth \<le> depth'" by simp
    with Suc show ?thesis by (blast intro: get_parent_states_Suc)
  qed
qed

lemma parents_loop_error:
  "parents_loop sd rec cs acc = Inl e \<Longrightarrow> \<exists>c. rec c = Inl e"
  by (induction sd rec cs acc rule: parents_loop.induct)
    (auto split: if_splits sum.splits)

lemma get_parent_states_error:
  "get_parent_states depth sd s = Inl e \<Longrightarrow> e = RecursionError"
proof (induction depth arbitrary: s)
  case 0
  then show ?case by simp
next
  case (Suc depth)
  from Suc.prems obtain c where "get_parent_states depth sd c = Inl e"
    by (auto split: option.splits dest: parents_loop_error)
  then show ?case by (rule Suc.IH)
qed

lemma get_parent_states_cycle:
  "(s, s) \<in> (condition_edges sd)\<^sup>+ \<Longrightarrow> get_parent_states depth sd s = Inl RecursionError"
proof (induction depth arbitrary: s)
  case 0
  then show ?case by simp
next
  case (Suc depth)
  from Suc.prems obtain c where edge: "(s, c) \<in> condition_edges sd"
    and return: "(c, s) \<in> (condition_edges sd)\<^sup>*"
    by (auto dest: tranclD)
  then have "(c, c) \<in> (condition_edges sd)\<^sup>+"
    by (rule rtrancl_into_trancl1 [rotated])
  then have err: "get_parent_states depth sd c = Inl RecursionError"
    by (rule Suc.IH)
  from edge obtain node where node: "map_of sd s = Some node"
    and c: "c \<in> set (conditions_of node)" "map_of sd c \<noteq> None"
    by (auto simp: condition_edges_iff)
  show ?case
  proof (cases "get_parent_states (Suc depth) sd s")
    case (Inl e)
    then show ?thesis by (simp add: get_parent_states_error [OF Inl])
  next
    case (Inr ps)
    with node
    have "parents_loop sd (get_parent_states depth sd) (conditions_of node) [] = Inr ps"
      by simp
    from parents_loop_calls [OF this c] err show ?thesis by simp
  qed
qed

lemma finite_condition_edges: "finite (condition_edges sd)"
proof -
  have "condition_edges sd \<subseteq> fst ` set sd \<times> fst ` set sd"
    by (force simp: condition_edges_iff dest!: map_of_SomeD)
  then show ?thesis
    by (rule finite_subset) simp
qed

lemma common_depth:
  "(\<And>c. c \<in> set cs \<Longrightarrow> P c \<Longrightarrow> \<exists>d r. get_parent_states d sd c = Inr r) \<Longrightarrow>
   \<exists>depth. \<forall>c \<in> set cs. P c \<longrightarrow> (\<exists>r. get_parent_states depth sd c = Inr r)"
proof (induction cs)
  case Nil
  then show ?case by simp
next
  case (Cons c cs)
  then obtain d1 where d1: "\<forall>c \<in> set cs. P c \<longrightarrow> (\<exists>r. get_parent_states d1 sd c = Inr r)"
    by auto
  show ?case
  proof (cases "P c")
    case False
    with d1 show ?thesis by auto
  next
    case True
    with Cons.prems(1) [of c] obtain d2 r where "get_parent_states d2 sd c = Inr r"
      by auto
    then have "get_parent_states (max d1 d2) sd c = Inr r"
      by (rule get_parent_states_mono) simp
    moreover have "\<forall>c \<in> set cs. P c \<longrightarrow> (\<exists>r. get_parent_states (max d1 d2) sd c = Inr r)"
      using d1 by (blast intro: get_parent_states_mono max.cobounded1)
    ultimately show ?thesis by auto
  qed
qed

lemma get_parent_states_returns:
  assumes "acyclic (condition_edges sd)"
  shows "\<exists>depth ps. get_parent_states depth sd s = Inr ps"
proof -
  from finite_condition_edges assms have "wf ((condition_edges sd)\<inverse>)"
    by (rule finite_acyclic_wf_converse)
  then show ?thesis
  proof (induction s rule: wf_induct_rule)
    case (less s)
    show ?case
    proof (cases "map_of sd s")
      case None
      then have "get_parent_states (Suc 0) sd s = Inr []" by simp
      then show ?thesis by blast
    next
      case (Some node)
      have "\<exists>d r. get_parent_states d sd c = Inr r"
        if "c \<in> set (conditions_of node)" "map_of sd c \<noteq> None" for c
      proof -
        from Some that have "(s, c) \<in> condition_edges sd"
          by (simp add: condition_edges_iff)
        then show ?thesis by (auto intro: less.IH)
      qed
      from common_depth [of "conditions_of node" "\<lambda>c. map_of sd c \<noteq> None" sd, OF this]
      obtain depth where
        "\<forall>c \<in> set (conditions_of node). map_of sd c \<noteq> None \<longrightarrow>
           (\<exists>r. get_parent_states depth sd c = Inr r)"
        by blast
      then have "\<exists>ps. parents_loop sd (get_parent_states depth sd) (conditions_of node) [] = Inr ps"
        by (intro parents_loop_returns) blast
      with Some have "\<exists>ps. get_parent_states (Suc depth) sd s = Inr ps" by simp
      then show ?thesis by blast
    qed
  qed
qed

lemma states_dict_cyclic_tree:
  "states_dict cyclic_tree =
     [(Trevoga, \<lparr>nazvanie = Trevoga, usloviya = Some [Gnev], ves = None\<rparr>),
      (Gnev, \<lparr>nazvanie = Gnev, usloviya = Some [Trevoga], ves = None\<rparr>)]"
  by (simp add: states_dict_def cyclic_tree_def)

lemma cyclic_tree_cycle:
  "(Trevoga, Trevoga) \<in> (condition_edges (states_dict cyclic_tree))\<^sup>+"
proof -
  have "(Trevoga, Gnev) \<in> condition_edges (states_dict cyclic_tree)"
    "(Gnev, Trevoga) \<in> condition_edges (states_dict cyclic_tree)"
    by (simp_all add: condition_edges_iff states_dict_cyclic_tree conditions_of_def)
  then show ?thesis by (rule trancl_trans [OF r_into_trancl r_into_trancl])
qed

text \<open>
  The claim C2 includes trees with a cycle. The source has no protection against cycles:
  on the tree whose two states are each a condition of the other, the call for Trevoga does
  not return a set. At Python's default limit of 1000 nested calls it ends in
  \<open>RecursionError\<close>, and by \<open>get_parent_states_cycle\<close> it does so at every limit.
\<close>

theorem parent_states_cycle_counterexample:
  "get_parent_states 1000 (states_dict cyclic_tree) Trevoga = Inl RecursionError"
  using cyclic_tree_cycle by (rule get_parent_states_cycle)

lemma states_dict_test_tree:
  "states_dict test_tree =
     [(Pustota, \<lparr>nazvanie = Pustota, usloviya = Some [], ves = Some 0\<rparr>),
      (Trevoga, \<lparr>nazvanie = Trevoga, usloviya = Some [Pustota], ves = Some 0\<rparr>),
      (Gnev, \<lparr>nazvanie = Gnev, usloviya = Some [Trevoga], ves = Some 0\<rparr>),
      (Obektivizatsiya, \<lparr>nazvanie = Obektivizatsiya, usloviya = Some [Gnev], ves = Some 0\<rparr>),
      (Somnenie, \<lparr>nazvanie = Somnenie, usloviya = Some [Trevoga], ves = Some 0\<rparr>)]"
  by (simp add: states_dict_def test_tree_def)

lemma test_tree_edges:
  "condition_edges (states_dict test_tree) \<subseteq>
     {(Trevoga, Pustota), (Gnev, Trevoga), (Obektivizatsiya, Gnev), (Somnenie, Trevoga)}"
  by (auto simp: condition_edges_iff states_dict_test_tree conditions_of_def split: if_splits)

lemma acyclic_test_tree: "acyclic (condition_edges (states_dict test_tree))"
proof -
  have "(condition_edges (states_dict test_tree))\<inverse> \<subseteq> measure test_tree_rank"
    using test_tree_edges by (auto simp: test_tree_rank_def)
  then have "wf ((condition_edges (states_dict test_tree))\<inverse>)"
    by (rule wf_subset [OF wf_measure])
  then have "acyclic ((condition_edges (states_dict test_tree))\<inverse>)"
    by (rule wf_acyclic)
  then show ?thesis by simp
qed

lemma test_tree_parents:
  "get_parent_states 4 (states_dict test_tree) Obektivizatsiya = Inr [Gnev, Trevoga, Pustota]"
  by (simp add: numeral_eq_Suc states_dict_test_tree conditions_of_def set_add_def set_update_def)

text \<open>
  C2, amended: when the condition edges among the states of the tree contain no cycle, the
  ancestor resolution returns: from some recursion depth on, every depth gives the same
  list, which has no repetitions and holds exactly the transitive parent states.
\<close>

theorem parent_states_acyclic:
  assumes "acyclic (condition_edges sd)"
  shows "\<exists>depth ps. (\<forall>d \<ge> depth. get_parent_states d sd s = Inr ps)
           \<and> set ps = ancestors sd s \<and> distinct ps"
proof -
  from get_parent_states_returns [OF assms] obtain depth ps
    where ret: "get_parent_states depth sd s = Inr ps" by blast
  then have "\<forall>d \<ge> depth. get_parent_states d sd s = Inr ps"
    by (blast intro: get_parent_states_mono)
  with ret show ?thesis
    by (blast dest: get_parent_states_ancestors get_parent_states_distinct)
qed

text \<open>The tree of the propagation experiment is acyclic; four nested calls are enough.\<close>

theorem parent_states_acyclic_witness:
  "get_parent_states 4 (states_dict test_tree) Obektivizatsiya = Inr [Gnev, Trevoga, Pustota]
   \<and> ancestors (states_dict test_tree) Obektivizatsiya = {Gnev, Trevoga, Pustota}"
proof -
  from parent_states_acyclic [OF acyclic_test_tree, of Obektivizatsiya] obtain depth ps
    where all: "\<forall>d \<ge> depth. get_parent_states d (states_dict test_tree) Obektivizatsiya = Inr ps"
      and anc: "set ps = ancestors (states_dict test_tree) Obektivizatsiya"
    by blast
  from all have "get_parent_states (max depth 4) (states_dict test_tree) Obektivizatsiya = Inr ps"
    by simp
  moreover from test_tree_parents
  have "get_parent_states (max depth 4) (states_dict test_tree) Obektivizatsiya =
      Inr [Gnev, Trevoga, Pustota]"
    by (rule get_parent_states_mono) simp
  ultimately have "ps = [Gnev, Trevoga, Pustota]" by simp
  with anc test_tree_parents show ?thesis by auto
qed

section \<open>Increasing a weight\<close>

lemma raise_parents_result:
  "distinct ps \<Longrightarrow> set ps \<subseteq> fst ` set weights \<Longrightarrow>
   \<exists>weights'. raise_parents a ps weights = (weights', None)
     \<and> (\<forall>k. map_of weights' k =
            (if k \<in> set ps then map_option (\<lambda>w. min 1 (w + a * 0.5)) (map_of weights k)
             else map_of weights k))"
proof (induction ps arbitrary: weights)
  case Nil
  then show ?case by simp
next
  case (Cons p ps)
  from Cons.prems(2) obtain w where w: "map_of weights p = Some w"
    by (cases "map_of weights p") (auto simp: map_of_eq_None_iff)
  let ?weights1 = "AList.update p (min 1 (w + a * 0.5)) weights"
  from Cons.prems have "distinct ps" "set ps \<subseteq> fst ` set ?weights1"
    by (auto simp: dom_update)
  from Cons.IH [OF this] obtain weights' where
    res: "raise_parents a ps ?weights1 = (weights', None)"
    and look: "\<forall>k. map_of weights' k =
            (if k \<in> set ps then map_option (\<lambda>w. min 1 (w + a * 0.5)) (map_of ?weights1 k)
             else map_of ?weights1 k)"
    by blast
  from res w have "raise_parents a (p # ps) weights = (weights', None)"
    by simp
  moreover have "map_of weights' k =
      (if k \<in> set (p # ps) then map_option (\<lambda>w. min 1 (w + a * 0.5)) (map_of weights k)
       else map_of weights k)" for k
    using look [rule_format, of k] Cons.prems(1) w by (auto simp: update_conv')
  ultimately show ?case by blast
qed

lemma ancestors_known: "ancestors sd s \<subseteq> fst ` set sd"
proof
  fix p
  assume "p \<in> ancestors sd s"
  then have "(s, p) \<in> (condition_edges sd)\<^sup>+"
    by (simp add: ancestors_def)
  then obtain c where "(c, p) \<in> condition_edges sd"
    by (auto dest: tranclD2)
  then have "map_of sd p \<noteq> None"
    by (auto simp: condition_edges_iff)
  then show "p \<in> fst ` set sd"
    by (simp add: map_of_eq_None_iff)
qed

lemma not_own_ancestor:
  assumes "get_parent_states depth sd s = Inr ps"
  shows "s \<notin> ancestors sd s"
proof
  assume "s \<in> ancestors sd s"
  then have "(s, s) \<in> (condition_edges sd)\<^sup>+"
    by (simp add: ancestors_def)
  then have "get_parent_states depth sd s = Inl RecursionError"
    by (rule get_parent_states_cycle)
  with assms show False by simp
qed

text \<open>
  The keys of the weight table are those of \<open>states_dict\<close>: \<open>__init__\<close> builds both from the
  names of the tree.
\<close>

lemma keys_fold_update:
  "fst ` set (fold (\<lambda>x d. AList.update (key x) (val x) d) xs d) = fst ` set d \<union> key ` set xs"
  by (induction xs arbitrary: d) (auto simp: dom_update)

lemma init_state_weights_keys:
  "fst ` set (init_state_weights tree) = fst ` set (states_dict tree)"
  by (simp add: init_state_weights_def states_dict_def keys_fold_update)

text \<open>What the call does when the ancestor resolution returns.\<close>

lemma increase_state_weight_returned:
  assumes keys: "fst ` set weights = fst ` set sd"
    and ret: "get_parent_states depth sd s = Inr ps"
  shows "(map_of weights s = None \<longrightarrow>
            increase_state_weight depth sd s a weights = (weights, None))
         \<and> (\<forall>w. map_of weights s = Some w \<longrightarrow>
              (\<exists>weights'. increase_state_weight depth sd s a weights = (weights', None)
                 \<and> map_of weights' s = Some (min 1 (w + a))
                 \<and> (\<forall>p \<in> ancestors sd s. \<exists>wp. map_of weights p = Some wp
                        \<and> map_of weights' p = Some (min 1 (wp + a * 0.5)))
                 \<and> (\<forall>q. q \<noteq> s \<and> q \<notin> ancestors sd s \<longrightarrow> map_of weights' q = map_of weights q)))"
proof (intro conjI allI impI)
  assume "map_of weights s = None"
  then show "increase_state_weight depth sd s a weights = (weights, None)"
    by (simp add: increase_state_weight_def)
next
  fix w
  assume w: "map_of weights s = Some w"
  let ?weights1 = "AList.update s (min 1 (w + a)) weights"
  from ret have anc: "set ps = ancestors sd s" and dist: "distinct ps"
    by (rule get_parent_states_ancestors, rule get_parent_states_distinct)
  from ret have self: "s \<notin> set ps"
    unfolding anc by (rule not_own_ancestor)
  from anc ancestors_known [of sd s] keys have "set ps \<subseteq> fst ` set ?weights1"
    by (auto simp: dom_update)
  from raise_parents_result [OF dist this, of a] obtain weights' where
    res: "raise_parents a ps ?weights1 = (weights', None)"
    and look: "\<And>k. map_of weights' k =
            (if k \<in> set ps then map_option (\<lambda>w. min 1 (w + a * 0.5)) (map_of ?weights1 k)
             else map_of ?weights1 k)"
    by blast
  have call: "increase_state_weight depth sd s a weights = (weights', None)"
    by (simp add: increase_state_weight_def w ret res)
  have own: "map_of weights' s = Some (min 1 (w + a))"
    using look [of s] self by (simp add: update_conv')
  have parents: "\<exists>wp. map_of weights p = Some wp \<and> map_of weights' p = Some (min 1 (wp + a * 0.5))"
    if "p \<in> ancestors sd s" for p
  proof -
    from that anc self have p: "p \<in> set ps" "p \<noteq> s" by auto
    from that ancestors_known [of sd s] keys obtain wp where "map_of weights p = Some wp"
      by (cases "map_of weights p") (auto simp: map_of_eq_None_iff)
    with look [of p] p show ?thesis by (simp add: update_conv')
  qed
  have others: "map_of weights' q = map_of weights q" if "q \<noteq> s \<and> q \<notin> ancestors sd s" for q
    using look [of q] that anc by (simp add: update_conv')
  from call own parents others
  show "\<exists>weights'. increase_state_weight depth sd s a weights = (weights', None)
          \<and> map_of weights' s = Some (min 1 (w + a))
          \<and> (\<forall>p \<in> ancestors sd s. \<exists>wp. map_of weights p = Some wp
                 \<and> map_of weights' p = Some (min 1 (wp + a * 0.5)))
          \<and> (\<forall>q. q \<noteq> s \<and> q \<notin> ancestors sd s \<longrightarrow> map_of weights' q = map_of weights q)"
    by blast
qed

lemma increase_state_weight_depth:
  "get_parent_states depth sd s = get_parent_states depth' sd s \<Longrightarrow>
   increase_state_weight depth sd s a weights = increase_state_weight depth' sd s a weights"
  unfolding increase_state_weight_def by (cases "map_of weights s") simp_all

lemma init_weights_cyclic_tree:
  "init_state_weights cyclic_tree = [(Trevoga, 0), (Gnev, 0)]"
  by (simp add: init_state_weights_def cyclic_tree_def initial_weight_def)

lemma cyclic_tree_ancestor: "Gnev \<in> ancestors (states_dict cyclic_tree) Trevoga"
proof -
  have "(Trevoga, Gnev) \<in> condition_edges (states_dict cyclic_tree)"
    by (simp add: condition_edges_iff states_dict_cyclic_tree conditions_of_def)
  then show ?thesis
    unfolding ancestors_def by blast
qed

text \<open>
  The claim C10 speaks of every state of the table. On the tree whose two states are each
  a condition of the other, Trevoga is in the table and Gnev is one of its ancestors, yet
  increasing Trevoga by 0.2 raises Trevoga alone: the ancestor resolution does not return,
  the call ends in \<open>RecursionError\<close> and Gnev keeps its weight.
\<close>

theorem increase_cycle_counterexample:
  "map_of (init_state_weights cyclic_tree) Trevoga = Some 0
   \<and> map_of (init_state_weights cyclic_tree) Gnev = Some 0
   \<and> Gnev \<in> ancestors (states_dict cyclic_tree) Trevoga
   \<and> increase_state_weight 1000 (states_dict cyclic_tree) Trevoga 0.2
         (init_state_weights cyclic_tree) =
       ([(Trevoga, 0.2), (Gnev, 0)], Some RecursionError)"
proof -
  have "get_parent_states 1000 (states_dict cyclic_tree) Trevoga = Inl RecursionError"
    using cyclic_tree_cycle by (rule get_parent_states_cycle)
  then have "increase_state_weight 1000 (states_dict cyclic_tree) Trevoga 0.2
         (init_state_weights cyclic_tree) =
       ([(Trevoga, 0.2), (Gnev, 0)], Some RecursionError)"
    by (simp add: increase_state_weight_def init_weights_cyclic_tree)
  with cyclic_tree_ancestor show ?thesis
    by (simp add: init_weights_cyclic_tree)
qed

text \<open>
  C10, amended: let the condition edges among the states of the tree contain no cycle, and
  let the weight table have the keys of the tree, as \<open>__init__\<close> builds it. Then at every
  sufficiently large recursion depth \<open>increase_state_weight\<close> ends without an exception;
  for a state that is not in the table it changes nothing; for a state in the table with
  weight \<open>w\<close> the new weight is \<open>min 1 (w + a)\<close>, every ancestor, at whatever distance,
  goes from its weight \<open>wp\<close> to \<open>min 1 (wp + a * 0.5)\<close>, and every other entry is
  unchanged.
\<close>

theorem increase_raises_state_and_ancestors:
  assumes keys: "fst ` set weights = fst ` set sd"
    and acyclic: "acyclic (condition_edges sd)"
  shows "\<exists>depth0. \<forall>depth \<ge> depth0.
           (map_of weights s = None \<longrightarrow>
              increase_state_weight depth sd s a weights = (weights, None))
           \<and> (\<forall>w. map_of weights s = Some w \<longrightarrow>
                (\<exists>weights'. increase_state_weight depth sd s a weights = (weights', None)
                   \<and> map_of weights' s = Some (min 1 (w + a))
                   \<and> (\<forall>p \<in> ancestors sd s. \<exists>wp. map_of weights p = Some wp
                          \<and> map_of weights' p = Some (min 1 (wp + a * 0.5)))
                   \<and> (\<forall>q. q \<noteq> s \<and> q \<notin> ancestors sd s
                          \<longrightarrow> map_of weights' q = map_of weights q)))"
proof -
  from get_parent_states_returns [OF acyclic] obtain depth0 ps
    where ret: "get_parent_states depth0 sd s = Inr ps" by blast
  have "(map_of weights s = None \<longrightarrow>
              increase_state_weight depth sd s a weights = (weights, None))
           \<and> (\<forall>w. map_of weights s = Some w \<longrightarrow>
                (\<exists>weights'. increase_state_weight depth sd s a weights = (weights', None)
                   \<and> map_of weights' s = Some (min 1 (w + a))
                   \<and> (\<forall>p \<in> ancestors sd s. \<exists>wp. map_of weights p = Some wp
                          \<and> map_of weights' p = Some (min 1 (wp + a * 0.5)))
                   \<and> (\<forall>q. q \<noteq> s \<and> q \<notin> ancestors sd s
                          \<longrightarrow> map_of weights' q = map_of weights q)))"
    if "depth0 \<le> depth" for depth
  proof -
    from ret that have "get_parent_states depth sd s = Inr ps"
      by (rule get_parent_states_mono)
    from increase_state_weight_returned [OF keys this] show ?thesis .
  qed
  then show ?thesis by blast
qed

lemma init_weights_test_tree:
  "init_state_weights test_tree =
     [(Pustota, 0), (Trevoga, 0), (Gnev, 0), (Obektivizatsiya, 0), (Somnenie, 0)]"
  by (simp add: init_state_weights_def test_tree_def initial_weight_def)

lemma unknown_state_parents:
  "get_parent_states 4 (states_dict test_tree) Utochnenie = Inr []"
  by (simp add: numeral_eq_Suc states_dict_test_tree)

text \<open>
  On the tree of the propagation experiment, which is acyclic, four nested calls are
  enough: increasing Obektivizatsiya by 0.2 raises Gnev, Trevoga and Pustota, at distances
  1, 2 and 3, by 0.1 each, and leaves Somnenie as it is; increasing Utochnenie, which is
  not in the table, changes nothing.
\<close>

theorem increase_raises_state_and_ancestors_witness:
  "fst ` set (init_state_weights test_tree) = fst ` set (states_dict test_tree)
   \<and> acyclic (condition_edges (states_dict test_tree))
   \<and> map_of (init_state_weights test_tree) Obektivizatsiya = Some 0
   \<and> (\<exists>weights'. increase_state_weight 4 (states_dict test_tree) Obektivizatsiya 0.2
           (init_state_weights test_tree) = (weights', None)
         \<and> map_of weights' Obektivizatsiya = Some 0.2
         \<and> map_of weights' Gnev = Some 0.1
         \<and> map_of weights' Trevoga = Some 0.1
         \<and> map_of weights' Pustota = Some 0.1
         \<and> map_of weights' Somnenie = Some 0)
   \<and> map_of (init_state_weights test_tree) Utochnenie = None
   \<and> increase_state_weight 4 (states_dict test_tree) Utochnenie 0.2
         (init_state_weights test_tree) = (init_state_weights test_tree, None)"
proof -
  let ?sd = "states_dict test_tree"
  let ?weights = "init_state_weights test_tree"
  note keys = init_state_weights_keys [of test_tree]
  have own: "map_of ?weights Obektivizatsiya = Some 0"
    and parents: "map_of ?weights Gnev = Some 0" "map_of ?weights Trevoga = Some 0"
      "map_of ?weights Pustota = Some 0"
    and other: "map_of ?weights Somnenie = Some 0"
    and unknown: "map_of ?weights Utochnenie = None"
    by (simp_all add: init_weights_test_tree)
  have anc: "ancestors ?sd Obektivizatsiya = {Gnev, Trevoga, Pustota}"
    using get_parent_states_ancestors [OF test_tree_parents] by simp
  from increase_raises_state_and_ancestors [OF keys acyclic_test_tree, of Obektivizatsiya "0.2"]
  obtain depth0 where known: "\<forall>depth \<ge> depth0.
      (map_of ?weights Obektivizatsiya = None \<longrightarrow>
         increase_state_weight depth ?sd Obektivizatsiya 0.2 ?weights = (?weights, None))
      \<and> (\<forall>w. map_of ?weights Obektivizatsiya = Some w \<longrightarrow>
           (\<exists>weights'. increase_state_weight depth ?sd Obektivizatsiya 0.2 ?weights =
                (weights', None)
              \<and> map_of weights' Obektivizatsiya = Some (min 1 (w + 0.2))
              \<and> (\<forall>p \<in> ancestors ?sd Obektivizatsiya. \<exists>wp. map_of ?weights p = Some wp
                     \<and> map_of weights' p = Some (min 1 (wp + 0.2 * 0.5)))
              \<and> (\<forall>q. q \<noteq> Obektivizatsiya \<and> q \<notin> ancestors ?sd Obektivizatsiya
                     \<longrightarrow> map_of weights' q = map_of ?weights q)))"
    by blast
  let ?d = "max depth0 4"
  have "depth0 \<le> ?d" by simp
  with known own obtain weights' where
    call: "increase_state_weight ?d ?sd Obektivizatsiya 0.2 ?weights = (weights', None)"
    and self: "map_of weights' Obektivizatsiya = Some (min 1 (0 + 0.2))"
    and up: "\<forall>p \<in> ancestors ?sd Obektivizatsiya. \<exists>wp. map_of ?weights p = Some wp
        \<and> map_of weights' p = Some (min 1 (wp + 0.2 * 0.5))"
    and rest: "\<forall>q. q \<noteq> Obektivizatsiya \<and> q \<notin> ancestors ?sd Obektivizatsiya
        \<longrightarrow> map_of weights' q = map_of ?weights q"
    by blast
  have "get_parent_states ?d ?sd Obektivizatsiya = get_parent_states 4 ?sd Obektivizatsiya"
    using get_parent_states_mono [OF test_tree_parents, of ?d] test_tree_parents by simp
  from increase_state_weight_depth [OF this] call
  have call4: "increase_state_weight 4 ?sd Obektivizatsiya 0.2 ?weights = (weights', None)"
    by simp
  from up parents have raised: "map_of weights' Gnev = Some 0.1"
    "map_of weights' Trevoga = Some 0.1" "map_of weights' Pustota = Some 0.1"
    unfolding anc by auto
  from rest other have kept: "map_of weights' Somnenie = Some 0"
    unfolding anc by simp
  from self have own': "map_of weights' Obektivizatsiya = Some 0.2"
    by simp
  from increase_raises_state_and_ancestors [OF keys acyclic_test_tree, of Utochnenie "0.2"]
  obtain depth1 where absent: "\<forall>depth \<ge> depth1.
      (map_of ?weights Utochnenie = None \<longrightarrow>
         increase_state_weight depth ?sd Utochnenie 0.2 ?weights = (?weights, None))"
    by blast
  let ?e = "max depth1 4"
  have "depth1 \<le> ?e" by simp
  with absent unknown
  have high: "increase_state_weight ?e ?sd Utochnenie 0.2 ?weights = (?weights, None)"
    by blast
  have "get_parent_states ?e ?sd Utochnenie = get_parent_states 4 ?sd Utochnenie"
    using get_parent_states_mono [OF unknown_state_parents, of ?e] unknown_state_parents
    by simp
  from increase_state_weight_depth [OF this] high
  have nochange: "increase_state_weight 4 ?sd Utochnenie 0.2 ?weights = (?weights, None)"
    by simp
  from keys acyclic_test_tree own unknown call4 own' raised kept nochange
  show ?thesis by blast
qed

end
